theory Spec2Isabelle
  imports Complex_Main "HOL-Library.Multiset" "HOL-Library.Product_Lexorder"
begin

section \<open>Data model\<close>

text \<open>
  Shallow embedding of \<^verbatim>\<open>Cascade_Hashing_Matcher_Regions.cpp\<close>: the function
  \<^verbatim>\<open>impl::Match\<close> and the member \<^verbatim>\<open>Cascade_Hashing_Matcher_Regions::Match\<close> that
  dispatches to it. The argument \<^verbatim>\<open>sfm_data\<close> is never read and is left out.
  \<^verbatim>\<open>IndexT\<close> is \<^verbatim>\<open>uint32_t\<close>; the matcher only compares, stores and orders
  identifiers, so they are natural numbers. \<^verbatim>\<open>Pair_Set\<close> is \<^verbatim>\<open>std::set<Pair>\<close>: a
  set that is traversed in ascending lexicographic order.
\<close>

type_synonym IndexT = nat
type_synonym Pair = "IndexT \<times> IndexT"
type_synonym Pair_Set = "Pair set"

text \<open>
  \<^verbatim>\<open>IndMatch\<close>, with fields \<open>idx_i\<close> and \<open>idx_j\<close> for the source's \<^verbatim>\<open>i_\<close> and
  \<^verbatim>\<open>j_\<close>; the constructor \<^verbatim>\<open>IndMatch(i, j)\<close> sets them in this order.
\<close>

record IndMatch =
  idx_i :: IndexT
  idx_j :: IndexT

type_synonym IndMatches = "IndMatch list"

text \<open>
  \<^verbatim>\<open>PairWiseMatchesContainer\<close> wraps a \<^verbatim>\<open>std::map<Pair, IndMatches>\<close>; its
  \<^verbatim>\<open>insert\<close> forwards to \<^verbatim>\<open>std::map::insert\<close>, which leaves an already present key
  untouched.
\<close>

type_synonym PairWiseMatchesContainer = "Pair \<rightharpoonup> IndMatches"

definition container_insert ::
  "Pair \<Rightarrow> IndMatches \<Rightarrow> PairWiseMatchesContainer \<Rightarrow> PairWiseMatchesContainer" where
  "container_insert k v m = (case m k of None \<Rightarrow> m(k \<mapsto> v) | Some old \<Rightarrow> m)"

text \<open>
  \<^verbatim>\<open>features::Regions\<close>, as far as the matcher reads it. The raw descriptor
  buffer stays abstract (\<open>'raw\<close>); only the hashing engine looks inside.
\<close>

record ('raw, 'pt) Regions =
  Type_id :: string
  DescriptorLength :: nat
  RegionCount :: nat
  DescriptorRawData :: 'raw
  GetRegionsPositions :: "'pt list"

record ('raw, 'pt) Regions_Provider =
  IsBinary :: bool
  Type_id :: string
  get :: "IndexT \<Rightarrow> ('raw, 'pt) Regions"

text \<open>The template parameter \<^verbatim>\<open>ScalarT\<close> of \<^verbatim>\<open>impl::Match\<close>.\<close>

datatype ScalarT = unsigned_char | float

text \<open>
  The two matrix types handed to the engine: an \<^verbatim>\<open>Eigen::Map<BaseMat>\<close> view
  (scalar type, buffer, rows, columns) and the dense \<^verbatim>\<open>Eigen::MatrixXf\<close>, a list
  of rows. \<open>'f\<close> is the floating-point type of means and distances; the
  matcher itself only writes \<open>0\<close> into it, squares the ratio and compares.
\<close>

datatype ('raw, 'f) Matrix =
    Map_BaseMat ScalarT 'raw nat nat
  | MatrixXf "'f list list"

text \<open>
  \<^verbatim>\<open>CascadeHasher\<close> (\<^verbatim>\<open>cascade_hasher.hpp\<close>) is not part of the translated file:
  its operations are parameters. The \<open>nat option\<close> argument is the hasher
  object's state, \<open>Some dimension\<close> after \<^verbatim>\<open>Init(dimension)\<close>.
  \<open>HashedDescriptions_default\<close> is the default-constructed
  \<^verbatim>\<open>HashedDescriptions\<close> that \<^verbatim>\<open>std::map::operator[]\<close> yields for an absent key.
\<close>

record ('raw, 'f, 'h) CascadeHasher =
  GetZeroMeanDescriptor :: "('raw, 'f) Matrix \<Rightarrow> 'f list"
  CreateHashedDescriptions :: "nat option \<Rightarrow> ('raw, 'f) Matrix \<Rightarrow> 'f list \<Rightarrow> 'h"
  Match_HashedDescriptions ::
    "nat option \<Rightarrow> 'h \<Rightarrow> ('raw, 'f) Matrix \<Rightarrow> 'h \<Rightarrow> ('raw, 'f) Matrix \<Rightarrow> IndMatches \<times> 'f list"
  HashedDescriptions_default :: 'h

text \<open>
  The two de-duplication passes (\<^verbatim>\<open>IndMatch::getDeduplicated\<close> and
  \<^verbatim>\<open>IndMatchDecorator<float>::getDeduplicated\<close>) are parameters as well.
\<close>

record 'pt Filters =
  getDeduplicated :: "IndMatches \<Rightarrow> IndMatches"
  decorator_getDeduplicated :: "'pt list \<Rightarrow> 'pt list \<Rightarrow> IndMatches \<Rightarrow> IndMatches"

text \<open>
  What a run reads and writes besides its arguments: the output container, the
  progress bar (\<^verbatim>\<open>restart\<close> sets the expected total and resets the count), the
  number of \<^verbatim>\<open>hasBeenCanceled()\<close> calls made so far, and the lines written to
  \<^verbatim>\<open>std::cerr\<close>. \<open>insert_calls\<close> is a trace of the calls of
  \<^verbatim>\<open>map_PutativesMatches.insert\<close> in the order they were made; nothing reads it.
\<close>

record Run =
  map_PutativesMatches :: PairWiseMatchesContainer
  progress_total :: nat
  progress_count :: nat
  cancel_polls :: nat
  cerr :: "string list"
  insert_calls :: "(Pair \<times> IndMatches) list"

text \<open>
  The progress bar argument: a null pointer selects \<^verbatim>\<open>C_Progress::dummy()\<close>, whose
  \<^verbatim>\<open>hasBeenCanceled\<close> is the base-class one and answers false. Otherwise the
  answer of the \<open>k\<close>-th call is given by the caller's object.
\<close>

definition hasBeenCanceled :: "(nat \<Rightarrow> bool) option \<Rightarrow> nat \<Rightarrow> bool" where
  "hasBeenCanceled my_progress_bar k =
     (case my_progress_bar of None \<Rightarrow> False | Some answers \<Rightarrow> answers k)"

text \<open>
  The execution order of the iterations of the two \<^verbatim>\<open>omp parallel for\<close> loops:
  for the index build over \<open>n\<close> images, and for the group of first image \<open>I\<close>
  with \<open>n\<close> second images. Without OpenMP both are \<open>[0..<n]\<close>.
\<close>

record Schedule =
  index_order :: "nat \<Rightarrow> nat list"
  match_order :: "IndexT \<Rightarrow> nat \<Rightarrow> nat list"

definition sequential :: Schedule where
  "sequential = \<lparr> index_order = (\<lambda>n. [0..<n]), match_order = (\<lambda>I n. [0..<n]) \<rparr>"

definition valid_schedule :: "Schedule \<Rightarrow> bool" where
  "valid_schedule sched \<longleftrightarrow>
     (\<forall>n. mset (index_order sched n) = mset [0..<n]) \<and>
     (\<forall>I n. mset (match_order sched I n) = mset [0..<n])"

section \<open>Helpers from \<^verbatim>\<open>matching_filters.hpp\<close> and \<^verbatim>\<open>numeric.hpp\<close>\<close>

definition Square :: "'f::times \<Rightarrow> 'f" where
  "Square x = x * x"

text \<open>
  Modelled from the spec: \<^verbatim>\<open>matching::NNdistanceRatio\<close> is not in the translated
  file. The distances come in consecutive groups of \<open>NN\<close> per query; the index
  of a group is emitted when its first distance is strictly below the ratio
  times its second distance.
\<close>

definition NNdistanceRatio :: "'f::{times,ord} list \<Rightarrow> nat \<Rightarrow> 'f \<Rightarrow> nat list" where
  "NNdistanceRatio dists NN fratio =
     filter (\<lambda>i. dists ! (i * NN) < fratio * dists ! (i * NN + 1))
            [0..<length dists div NN]"

section \<open>\<^verbatim>\<open>impl::Match\<close>\<close>

subsection \<open>Grouping the pairs (lines 51 to 61)\<close>

text \<open>
  \<^verbatim>\<open>map_Pairs\<close> is a \<^verbatim>\<open>std::map<IndexT, std::vector<IndexT>>\<close>, kept as an
  association list in ascending key order, which is the order the matching
  loop later walks it in. \<open>push_back_at k v\<close> is
  \<^verbatim>\<open>map_Pairs[k].push_back(v)\<close>: \<^verbatim>\<open>operator[]\<close> creates an empty vector for a new key.
\<close>

type_synonym Map_vectorT = "(IndexT \<times> IndexT list) list"

fun push_back_at :: "IndexT \<Rightarrow> IndexT \<Rightarrow> Map_vectorT \<Rightarrow> Map_vectorT" where
  "push_back_at k v [] = [(k, [v])]"
| "push_back_at k v ((k', vs) # m) =
     (if k = k' then (k', vs @ [v]) # m
      else if k < k' then (k, [v]) # (k', vs) # m
      else (k', vs) # push_back_at k v m)"

text \<open>
  The loop over \<^verbatim>\<open>pairs\<close> fills two independent accumulators; each is a fold of
  its own here. The argument is the traversal of the \<^verbatim>\<open>std::set\<close>.
\<close>

definition map_Pairs_of :: "Pair list \<Rightarrow> Map_vectorT" where
  "map_Pairs_of ps = foldl (\<lambda>m pair_idx. push_back_at (fst pair_idx) (snd pair_idx) m) [] ps"

definition used_index_of :: "Pair list \<Rightarrow> IndexT set" where
  "used_index_of ps = foldl (\<lambda>u pair_idx. insert (snd pair_idx) (insert (fst pair_idx) u)) {} ps"

subsection \<open>Initialising the hasher (lines 65 to 73)\<close>

definition init_cascade_hasher ::
  "('raw, 'pt) Regions_Provider \<Rightarrow> IndexT list \<Rightarrow> nat option" where
  "init_cascade_hasher regions_provider used =
     (case used of
        [] \<Rightarrow> None
      | I # _ \<Rightarrow> Some (DescriptorLength (get regions_provider I)))"

subsection \<open>The zero-mean descriptor (lines 77 to 102)\<close>

text \<open>
  \<open>used\<close> is the traversal of \<^verbatim>\<open>used_index\<close>; \<^verbatim>\<open>std::advance(iter, i)\<close> reaches its
  \<open>i\<close>-th element, and \<open>i\<close> stays below the size of the set.
  \<^verbatim>\<open>matForZeroMean\<close> starts as the empty matrix and is resized and zero-filled
  in the first iteration, with the first image's descriptor length as its
  number of columns. A row is a list here, so the row assignment is a list
  update whatever the length of the assigned vector; the source relies on all
  images having one descriptor length.
\<close>

definition mat_of ::
  "ScalarT \<Rightarrow> ('raw, 'pt) Regions \<Rightarrow> nat \<Rightarrow> ('raw, 'f) Matrix" where
  "mat_of T regions dimension =
     Map_BaseMat T (DescriptorRawData regions) (RegionCount regions) dimension"

definition zero_mean_step ::
  "('raw, 'f::zero, 'h) CascadeHasher \<Rightarrow> ScalarT \<Rightarrow> ('raw, 'pt) Regions_Provider \<Rightarrow>
   IndexT list \<Rightarrow> 'f list list \<Rightarrow> nat \<Rightarrow> 'f list list" where
  "zero_mean_step hasher T regions_provider used matForZeroMean i =
     (let I = used ! i;
          regionsI = get regions_provider I;
          dimension = DescriptorLength regionsI;
          m = (if i = 0 then replicate (length used) (replicate dimension 0)
               else matForZeroMean)
      in if RegionCount regionsI > 0
         then m[i := GetZeroMeanDescriptor hasher (mat_of T regionsI dimension)]
         else m)"

definition zero_mean_descriptor ::
  "('raw, 'f::zero, 'h) CascadeHasher \<Rightarrow> ScalarT \<Rightarrow> ('raw, 'pt) Regions_Provider \<Rightarrow>
   IndexT list \<Rightarrow> 'f list" where
  "zero_mean_descriptor hasher T regions_provider used =
     GetZeroMeanDescriptor hasher
       (MatrixXf (foldl (zero_mean_step hasher T regions_provider used) []
                        [0..<length used]))"

subsection \<open>Indexing the regions (lines 104 to 126)\<close>

text \<open>
  \<^verbatim>\<open>hashed_base_\<close> is a \<^verbatim>\<open>std::map\<close> read only through \<^verbatim>\<open>operator[]\<close>: a total
  function that answers the default value on keys never written. \<open>order\<close> is
  the order in which the iterations of the parallel loop reach the critical
  section.
\<close>

definition index_step ::
  "('raw, 'f, 'h) CascadeHasher \<Rightarrow> ScalarT \<Rightarrow> nat option \<Rightarrow> ('raw, 'pt) Regions_Provider \<Rightarrow>
   IndexT list \<Rightarrow> 'f list \<Rightarrow> (IndexT \<Rightarrow> 'h) \<Rightarrow> nat \<Rightarrow> (IndexT \<Rightarrow> 'h)" where
  "index_step hasher T cascade_hasher regions_provider used zero_mean hashed_base i =
     (let I = used ! i;
          regionsI = get regions_provider I;
          dimension = DescriptorLength regionsI;
          mat_I = mat_of T regionsI dimension
      in hashed_base(I := CreateHashedDescriptions hasher cascade_hasher mat_I zero_mean))"

definition build_index ::
  "('raw, 'f, 'h) CascadeHasher \<Rightarrow> ScalarT \<Rightarrow> nat option \<Rightarrow> ('raw, 'pt) Regions_Provider \<Rightarrow>
   IndexT list \<Rightarrow> 'f list \<Rightarrow> nat list \<Rightarrow> (IndexT \<Rightarrow> 'h)" where
  "build_index hasher T cascade_hasher regions_provider used zero_mean order =
     foldl (index_step hasher T cascade_hasher regions_provider used zero_mean)
           (\<lambda>I. HashedDescriptions_default hasher) order"

subsection \<open>Matching one pair (lines 155 to 222)\<close>

text \<open>Everything \<^verbatim>\<open>impl::Match\<close> has set up before the matching loops.\<close>

record ('raw, 'pt, 'f, 'h) Match_Env =
  hasher :: "('raw, 'f, 'h) CascadeHasher"
  filters :: "'pt Filters"
  scalar :: ScalarT
  regions_provider :: "('raw, 'pt) Regions_Provider"
  fDistRatio :: 'f
  my_progress_bar :: "(nat \<Rightarrow> bool) option"
  cascade_hasher :: "nat option"
  hashed_base :: "IndexT \<Rightarrow> 'h"

text \<open>
  The query: \<open>J\<close>'s hashed description and matrix first, then \<open>I\<close>'s. Both
  matrices are given \<open>I\<close>'s descriptor length as their number of columns.
  \<open>nn_ratio_indexes\<close> is the call of \<^verbatim>\<open>NNdistanceRatio\<close> of lines 185 to 190,
  \<open>emplace_matches\<close> the loop of lines 194 to 198; its read of
  \<^verbatim>\<open>pvec_indices[index * 2]\<close> is in range when the engine returns as many indices
  as distances.
\<close>

definition knn_query ::
  "('raw, 'pt, 'f, 'h) Match_Env \<Rightarrow> IndexT \<Rightarrow> IndexT \<Rightarrow> IndMatches \<times> 'f list" where
  "knn_query c I J =
     (let regionsI = get (regions_provider c) I;
          regionsJ = get (regions_provider c) J;
          dimension = DescriptorLength regionsI;
          mat_I = mat_of (scalar c) regionsI dimension;
          mat_J = mat_of (scalar c) regionsJ dimension
      in Match_HashedDescriptions (hasher c) (cascade_hasher c)
           (hashed_base c J) mat_J (hashed_base c I) mat_I)"

definition nn_ratio_indexes :: "'f::{times,ord} \<Rightarrow> 'f list \<Rightarrow> nat list" where
  "nn_ratio_indexes distRatio pvec_distances =
     NNdistanceRatio pvec_distances 2 (Square distRatio)"

definition emplace_matches :: "IndMatches \<Rightarrow> nat list \<Rightarrow> IndMatches" where
  "emplace_matches pvec_indices indexes =
     map (\<lambda>index. \<lparr> idx_i = idx_j (pvec_indices ! (index * 2)),
                    idx_j = idx_i (pvec_indices ! (index * 2)) \<rparr>) indexes"

definition pair_matches ::
  "('raw, 'pt, 'f::{times,ord}, 'h) Match_Env \<Rightarrow> IndexT \<Rightarrow> IndexT \<Rightarrow> IndMatches" where
  "pair_matches c I J =
     (let pointFeaturesI = GetRegionsPositions (get (regions_provider c) I);
          (pvec_indices, pvec_distances) = knn_query c I J;
          matches = emplace_matches pvec_indices
                      (nn_ratio_indexes (fDistRatio c) pvec_distances);
          matches = getDeduplicated (filters c) matches;
          pointFeaturesJ = GetRegionsPositions (get (regions_provider c) J)
      in decorator_getDeduplicated (filters c) pointFeaturesI pointFeaturesJ matches)"

definition insert_matches :: "Pair \<Rightarrow> IndMatches \<Rightarrow> Run \<Rightarrow> Run" where
  "insert_matches k matches s =
     s\<lparr> map_PutativesMatches := container_insert k matches (map_PutativesMatches s),
        insert_calls := insert_calls s @ [(k, matches)] \<rparr>"

definition increment :: "nat \<Rightarrow> Run \<Rightarrow> Run" where
  "increment n s = s\<lparr> progress_count := progress_count s + n \<rparr>"

definition poll :: "Run \<Rightarrow> Run" where
  "poll s = s\<lparr> cancel_polls := cancel_polls s + 1 \<rparr>"

text \<open>The body of the inner loop for the second image \<open>J\<close>.\<close>

definition pair_task ::
  "('raw, 'pt, 'f::{times,ord}, 'h) Match_Env \<Rightarrow> IndexT \<Rightarrow> IndexT \<Rightarrow> Run \<Rightarrow> Run" where
  "pair_task c I J s =
     (if hasBeenCanceled (my_progress_bar c) (cancel_polls s) then poll s
      else if Regions.Type_id (get (regions_provider c) I)
              \<noteq> Regions.Type_id (get (regions_provider c) J)
      then increment 1 (poll s)
      else let matches = pair_matches c I J
           in increment 1
                (if matches \<noteq> [] then insert_matches (I, J) matches (poll s)
                 else poll s))"

subsection \<open>The matching loops (lines 128 to 224)\<close>

text \<open>
  The inner loop is an \<^verbatim>\<open>omp parallel for\<close>: every iteration runs once, in the
  order \<open>order\<close>. An iteration only reads shared data until it enters the
  critical section, so it is taken as one step.
\<close>

definition inner_loop ::
  "('raw, 'pt, 'f::{times,ord}, 'h) Match_Env \<Rightarrow> IndexT \<Rightarrow> IndexT list \<Rightarrow> nat list \<Rightarrow> Run \<Rightarrow> Run" where
  "inner_loop c I indexToCompare order s =
     foldl (\<lambda>s j. pair_task c I (indexToCompare ! j) s) s order"

text \<open>The body of the outer loop after its cancellation check.\<close>

definition group_task ::
  "('raw, 'pt, 'f::{times,ord}, 'h) Match_Env \<Rightarrow> Schedule \<Rightarrow> IndexT \<Rightarrow> IndexT list \<Rightarrow> Run \<Rightarrow> Run" where
  "group_task c sched I indexToCompare s =
     (if RegionCount (get (regions_provider c) I) = 0
      then increment (length indexToCompare) s
      else inner_loop c I indexToCompare
             (match_order sched I (length indexToCompare)) s)"

fun outer_loop ::
  "('raw, 'pt, 'f::{times,ord}, 'h) Match_Env \<Rightarrow> Schedule \<Rightarrow> Map_vectorT \<Rightarrow> Run \<Rightarrow> Run" where
  "outer_loop c sched [] s = s"
| "outer_loop c sched ((I, indexToCompare) # groups) s =
     (if hasBeenCanceled (my_progress_bar c) (cancel_polls s) then poll s
      else outer_loop c sched groups (group_task c sched I indexToCompare (poll s)))"

subsection \<open>The whole function\<close>

definition restart :: "nat \<Rightarrow> Run \<Rightarrow> Run" where
  "restart expected s = s\<lparr> progress_total := expected, progress_count := 0 \<rparr>"

definition match_env ::
  "('raw, 'f::zero, 'h) CascadeHasher \<Rightarrow> 'pt Filters \<Rightarrow> ScalarT \<Rightarrow> ('raw, 'pt) Regions_Provider \<Rightarrow>
   Pair_Set \<Rightarrow> 'f \<Rightarrow> (nat \<Rightarrow> bool) option \<Rightarrow> Schedule \<Rightarrow> ('raw, 'pt, 'f, 'h) Match_Env" where
  "match_env h flt T rp pairs ratio bar sched =
     (let used = sorted_list_of_set (used_index_of (sorted_list_of_set pairs));
          ch = init_cascade_hasher rp used;
          zero_mean = zero_mean_descriptor h T rp used
      in \<lparr> hasher = h, filters = flt, scalar = T, regions_provider = rp,
           fDistRatio = ratio, my_progress_bar = bar, cascade_hasher = ch,
           hashed_base = build_index h T ch rp used zero_mean
                           (index_order sched (length used)) \<rparr>)"

definition impl_Match ::
  "('raw, 'f::{zero,times,ord}, 'h) CascadeHasher \<Rightarrow> 'pt Filters \<Rightarrow> ScalarT \<Rightarrow>
   ('raw, 'pt) Regions_Provider \<Rightarrow> Pair_Set \<Rightarrow> 'f \<Rightarrow> (nat \<Rightarrow> bool) option \<Rightarrow>
   Schedule \<Rightarrow> Run \<Rightarrow> Run" where
  "impl_Match h flt T rp pairs ratio bar sched s =
     outer_loop (match_env h flt T rp pairs ratio bar sched) sched
       (map_Pairs_of (sorted_list_of_set pairs))
       (restart (card pairs) s)"

section \<open>\<^verbatim>\<open>Cascade_Hashing_Matcher_Regions::Match\<close>\<close>

text \<open>
  \<^verbatim>\<open>typeid(unsigned char).name()\<close> and \<^verbatim>\<open>typeid(float).name()\<close> are
  implementation-defined strings: parameters \<open>tn_uchar\<close> and \<open>tn_float\<close>.
  The shared pointer to the provider may be null (\<open>None\<close>).
\<close>

definition Match ::
  "string \<Rightarrow> string \<Rightarrow> ('raw, 'f::{zero,times,ord}, 'h) CascadeHasher \<Rightarrow> 'pt Filters \<Rightarrow>
   'f \<Rightarrow> ('raw, 'pt) Regions_Provider option \<Rightarrow> Pair_Set \<Rightarrow> (nat \<Rightarrow> bool) option \<Rightarrow>
   Schedule \<Rightarrow> Run \<Rightarrow> Run" where
  "Match tn_uchar tn_float h flt f_dist_ratio provider pairs bar sched s =
     (case provider of
        None \<Rightarrow> s
      | Some rp \<Rightarrow>
          if IsBinary rp then s
          else if Regions_Provider.Type_id rp = tn_uchar
          then impl_Match h flt unsigned_char rp pairs f_dist_ratio bar sched s
          else if Regions_Provider.Type_id rp = tn_float
          then impl_Match h flt float rp pairs f_dist_ratio bar sched s
          else s\<lparr> cerr := cerr s @ [''Matcher not implemented for this region type''] \<rparr>)"

section \<open>Vocabulary of the properties\<close>

text \<open>
  The definitions of this section are not part of the program: they name what
  the properties below talk about.
\<close>

text \<open>The row an image contributes to \<^verbatim>\<open>matForZeroMean\<close>.\<close>

definition summary_row ::
  "('raw, 'f::zero, 'h) CascadeHasher \<Rightarrow> ScalarT \<Rightarrow> ('raw, 'pt) Regions_Provider \<Rightarrow>
   IndexT list \<Rightarrow> IndexT \<Rightarrow> 'f list" where
  "summary_row h T rp used I =
     (if RegionCount (get rp I) > 0
      then GetZeroMeanDescriptor h (mat_of T (get rp I) (DescriptorLength (get rp I)))
      else replicate (DescriptorLength (get rp (hd used))) 0)"

text \<open>
  The entry a completed task for \<open>(I, J)\<close> offers to the container, if any; the
  tasks of a group in the order a schedule runs them; the tasks of all groups
  whose first image has descriptors; all pairs of a grouping.
\<close>

definition pair_result ::
  "('raw, 'pt, 'f::{times,ord}, 'h) Match_Env \<Rightarrow> IndexT \<Rightarrow> IndexT \<Rightarrow> IndMatches option" where
  "pair_result c I J =
     (if Regions.Type_id (get (regions_provider c) I) \<noteq> Regions.Type_id (get (regions_provider c) J)
      then None
      else if pair_matches c I J = [] then None
      else Some (pair_matches c I J))"

definition group_tasks :: "IndexT \<Rightarrow> IndexT list \<Rightarrow> nat list \<Rightarrow> Pair list" where
  "group_tasks I indexToCompare order = map (\<lambda>j. (I, indexToCompare ! j)) order"

definition run_tasks ::
  "('raw, 'pt, 'f, 'h) Match_Env \<Rightarrow> Schedule \<Rightarrow> Map_vectorT \<Rightarrow> Pair list" where
  "run_tasks c sched groups =
     concat (map (\<lambda>(I, indexToCompare).
                    if RegionCount (get (regions_provider c) I) = 0 then []
                    else group_tasks I indexToCompare
                           (match_order sched I (length indexToCompare))) groups)"

definition pairs_of :: "Map_vectorT \<Rightarrow> Pair list" where
  "pairs_of groups = concat (map (\<lambda>(I, indexToCompare). map (Pair I) indexToCompare) groups)"

text \<open>
  \<open>evolves c tasks n s s'\<close>: from \<open>s\<close> to \<open>s'\<close> the container changed only by
  adding, under absent keys among \<open>tasks\<close>, the entry offered by that pair's
  task; the inserts made are among \<open>tasks\<close>, each at most as often as it is
  listed; the count grew by at most \<open>n\<close>. \<open>completes\<close> is the exact outcome
  when every task of \<open>tasks\<close> ran.
\<close>

definition evolves ::
  "('raw, 'pt, 'f::{times,ord}, 'h) Match_Env \<Rightarrow> Pair list \<Rightarrow> nat \<Rightarrow> Run \<Rightarrow> Run \<Rightarrow> bool" where
  "evolves c tasks n s s' \<longleftrightarrow>
     (\<forall>k. map_PutativesMatches s' k = map_PutativesMatches s k \<or>
          (map_PutativesMatches s k = None \<and> k \<in> set tasks \<and>
           (\<exists>m. pair_result c (fst k) (snd k) = Some m \<and> map_PutativesMatches s' k = Some m))) \<and>
     (\<exists>log. insert_calls s' = insert_calls s @ log \<and>
            mset (map fst log) \<subseteq># mset tasks \<and>
            (\<forall>e \<in> set log. pair_result c (fst (fst e)) (snd (fst e)) = Some (snd e) \<and>
                  (map_PutativesMatches s (fst e) = None \<longrightarrow>
                   map_PutativesMatches s' (fst e) = Some (snd e)))) \<and>
     progress_count s \<le> progress_count s' \<and> progress_count s' \<le> progress_count s + n \<and>
     cerr s' = cerr s \<and> progress_total s' = progress_total s \<and>
     cancel_polls s \<le> cancel_polls s'"

definition completes ::
  "('raw, 'pt, 'f::{times,ord}, 'h) Match_Env \<Rightarrow> Pair list \<Rightarrow> nat \<Rightarrow> Run \<Rightarrow> Run \<Rightarrow> bool" where
  "completes c tasks n s s' \<longleftrightarrow>
     (\<forall>k. map_PutativesMatches s' k =
            (case map_PutativesMatches s k of
               Some v \<Rightarrow> Some v
             | None \<Rightarrow> if k \<in> set tasks then pair_result c (fst k) (snd k) else None)) \<and>
     progress_count s' = progress_count s + n"

text \<open>
  A progress bar that never reports cancellation, and one whose report, once
  true, stays true.
\<close>

definition never_canceled :: "(nat \<Rightarrow> bool) option \<Rightarrow> bool" where
  "never_canceled bar \<longleftrightarrow> (\<forall>k. \<not> hasBeenCanceled bar k)"

definition latched :: "(nat \<Rightarrow> bool) option \<Rightarrow> bool" where
  "latched bar \<longleftrightarrow> (\<forall>m n. m \<le> n \<longrightarrow> hasBeenCanceled bar m \<longrightarrow> hasBeenCanceled bar n)"

text \<open>
  What the matcher relies on from its collaborators. The answer to a query with
  \<open>n_query\<close> query descriptors against \<open>n_base\<close> base descriptors holds as many
  indices as distances; every \<^verbatim>\<open>IndMatch\<close> in it carries the query's index first
  and a base index second; and the groups of two belong to different queries.
  The de-duplication passes only remove elements.
\<close>

definition knn_contract :: "nat \<Rightarrow> nat \<Rightarrow> IndMatches \<times> 'f list \<Rightarrow> bool" where
  "knn_contract n_query n_base answer \<longleftrightarrow>
     length (fst answer) = length (snd answer) \<and>
     list_all (\<lambda>m. idx_i m < n_query \<and> idx_j m < n_base) (fst answer) \<and>
     distinct (map (\<lambda>g. idx_i (fst answer ! (g * 2))) [0..<length (fst answer) div 2])"

definition filters_contract :: "'pt Filters \<Rightarrow> bool" where
  "filters_contract flt \<longleftrightarrow>
     (\<forall>ms. mset (getDeduplicated flt ms) \<subseteq># mset ms) \<and>
     (\<forall>ptsI ptsJ ms. mset (decorator_getDeduplicated flt ptsI ptsJ ms) \<subseteq># mset ms)"

section \<open>A table-driven configuration for concrete runs\<close>

text \<open>
  A stand-in engine whose answers are read off the query image's buffer: the
  buffer of an image lists, for each of its descriptors, candidate
  (base index, distance) records; a descriptor with at least two candidates
  inside the base image answers with the first two. Used to run the model on
  concrete inputs: images 0, 1 and 4 hold float descriptors, image 2 holds
  none, every other image reports another scalar type. \<open>reversed\<close> runs both
  parallel loops backwards; \<open>cancel_from n\<close> reports cancellation from the
  \<open>n\<close>-th check on.
\<close>

definition table_group :: "(nat \<times> real) list list \<Rightarrow> nat \<Rightarrow> nat \<Rightarrow> (IndMatch \<times> real) list" where
  "table_group raw nb q =
     (if q < length raw then
        (case filter (\<lambda>bd. fst bd < nb) (raw ! q) of
           bd1 # bd2 # _ \<Rightarrow> [(\<lparr> idx_i = q, idx_j = fst bd1 \<rparr>, snd bd1),
                            (\<lparr> idx_i = q, idx_j = fst bd2 \<rparr>, snd bd2)]
         | _ \<Rightarrow> [])
      else [])"

definition table_knn ::
  "((nat \<times> real) list list, real) Matrix \<Rightarrow> ((nat \<times> real) list list, real) Matrix \<Rightarrow>
   IndMatches \<times> real list" where
  "table_knn query base =
     (case (query, base) of
        (Map_BaseMat Tq rq nq dq, Map_BaseMat Tb rb nb db) \<Rightarrow>
          (let groups = concat (map (table_group rq nb) [0..<nq])
           in (map fst groups, map snd groups))
      | _ \<Rightarrow> ([], []))"

definition table_hasher :: "((nat \<times> real) list list, real, real list) CascadeHasher" where
  "table_hasher =
     \<lparr> GetZeroMeanDescriptor =
         (\<lambda>m. case m of Map_BaseMat T raw n d \<Rightarrow> replicate d (real n)
                       | MatrixXf rows \<Rightarrow> concat rows),
       CreateHashedDescriptions = (\<lambda>ch m zero_mean. zero_mean),
       Match_HashedDescriptions = (\<lambda>ch hq query hb base. table_knn query base),
       HashedDescriptions_default = [] \<rparr>"

fun dedup_on :: "('a \<Rightarrow> 'b) \<Rightarrow> 'a list \<Rightarrow> 'a list" where
  "dedup_on f [] = []"
| "dedup_on f (x # xs) =
     (if f x \<in> f ` set xs then dedup_on f xs else x # dedup_on f xs)"

definition table_filters :: "(real \<times> real) Filters" where
  "table_filters =
     \<lparr> getDeduplicated = remdups,
       decorator_getDeduplicated =
         (\<lambda>ptsI ptsJ. dedup_on (\<lambda>m. (ptsI ! idx_i m, ptsJ ! idx_j m))) \<rparr>"

definition table_regions ::
  "string \<Rightarrow> (nat \<times> real) list list \<Rightarrow> (real \<times> real) list \<Rightarrow>
   ((nat \<times> real) list list, real \<times> real) Regions" where
  "table_regions tid raw pts =
     \<lparr> Regions.Type_id = tid, DescriptorLength = 1, RegionCount = length raw,
       DescriptorRawData = raw, GetRegionsPositions = pts \<rparr>"

definition table_provider :: "((nat \<times> real) list list, real \<times> real) Regions_Provider" where
  "table_provider =
     \<lparr> IsBinary = False, Regions_Provider.Type_id = ''f'',
       get = (\<lambda>I. if I = 0 then table_regions ''f'' [[], [], []] [(0, 0), (1, 1), (2, 2)]
                  else if I = 1 then table_regions ''f''
                         [[(2, 1), (1, 4)], [(2, 16), (0, 25)], [(1, 2), (0, 8)]]
                         [(5, 5), (6, 6), (7, 7)]
                  else if I = 2 then table_regions ''f'' [] []
                  else if I = 4 then table_regions ''f'' [[(0, 1), (1, 9)]] [(8, 8)]
                  else table_regions ''h'' [[(0, 1), (1, 2)]] [(9, 9)]) \<rparr>"

definition fresh :: Run where
  "fresh = \<lparr> map_PutativesMatches = Map.empty, progress_total = 0, progress_count = 0,
             cancel_polls = 0, cerr = [], insert_calls = [] \<rparr>"

definition table_pairs :: Pair_Set where
  "table_pairs = {(0, 1), (0, 2), (0, 3), (0, 4), (1, 4), (2, 1)}"

definition reversed :: Schedule where
  "reversed = \<lparr> index_order = (\<lambda>n. rev [0..<n]), match_order = (\<lambda>I n. rev [0..<n]) \<rparr>"

definition cancel_from :: "nat \<Rightarrow> (nat \<Rightarrow> bool) option" where
  "cancel_from n = Some (\<lambda>k. n \<le> k)"

definition table_start :: Run where
  "table_start = fresh\<lparr> map_PutativesMatches := [(7, 8) \<mapsto> [\<lparr> idx_i = 0, idx_j = 0 \<rparr>]] \<rparr>"

section \<open>Auxiliary facts\<close>

subsection \<open>Zero-mean rows, used images, the index\<close>

lemma zero_mean_rows_prefix:
  "k \<le> length used \<Longrightarrow> 0 < k \<Longrightarrow>
   foldl (zero_mean_step h T rp used) [] [0..<k]
     = map (summary_row h T rp used) (take k used)
       @ replicate (length used - k) (replicate (DescriptorLength (get rp (hd used))) 0)"
proof (induction k)
  case 0
  then show ?case by simp
next
  case (Suc k)
  let ?z = "replicate (DescriptorLength (get rp (hd used))) (0::'a)"
  have k: "k < length used" using Suc.prems by simp
  then have ne: "used \<noteq> []" by auto
  have hd0: "used ! 0 = hd used" using ne by (simp add: hd_conv_nth)
  have tk: "take (Suc k) used = take k used @ [used ! k]"
    using k by (simp add: take_Suc_conv_app_nth)
  have rep: "replicate (length used - k) ?z = ?z # replicate (length used - Suc k) ?z"
    using k by (metis Suc_diff_Suc replicate_Suc)
  have step: "foldl (zero_mean_step h T rp used) [] [0..<Suc k]
              = zero_mean_step h T rp used (foldl (zero_mean_step h T rp used) [] [0..<k]) k"
    by simp
  show ?case
  proof (cases "k = 0")
    case True
    have "replicate (length used) ?z = ?z # replicate (length used - Suc 0) ?z"
      using rep True by simp
    then have "zero_mean_step h T rp used [] 0
       = map (summary_row h T rp used) (take (Suc 0) used)
         @ replicate (length used - Suc 0) ?z"
      using tk hd0 ne True
      by (simp add: zero_mean_step_def summary_row_def Let_def)
    then show ?thesis using True by simp
  next
    case False
    then have IH: "foldl (zero_mean_step h T rp used) [] [0..<k]
       = map (summary_row h T rp used) (take k used) @ replicate (length used - k) ?z"
      using Suc.IH k by simp
    have len: "length (map (summary_row h T rp used) (take k used)) = k"
      using k by simp
    have "zero_mean_step h T rp used
            (map (summary_row h T rp used) (take k used) @ replicate (length used - k) ?z) k
          = map (summary_row h T rp used) (take (Suc k) used)
            @ replicate (length used - Suc k) ?z"
      using False k len
      by (simp add: tk rep zero_mean_step_def summary_row_def Let_def list_update_append)
    then show ?thesis unfolding step IH .
  qed
qed

lemma zero_mean_rows:
  "foldl (zero_mean_step h T rp used) [] [0..<length used] = map (summary_row h T rp used) used"
proof (cases "used = []")
  case True
  then show ?thesis by simp
next
  case False
  then show ?thesis using zero_mean_rows_prefix [of "length used" used h T rp] by simp
qed

lemma used_index_of_eq: "used_index_of ps = fst ` set ps \<union> snd ` set ps"
proof -
  have "foldl (\<lambda>u pair_idx. insert (snd pair_idx) (insert (fst pair_idx) u)) u0 ps
        = u0 \<union> fst ` set ps \<union> snd ` set ps" for u0
    by (induction ps arbitrary: u0) auto
  then show ?thesis by (simp add: used_index_of_def)
qed

lemma build_index_lookup:
  "build_index h T ch rp used zm order I =
     (if I \<in> (\<lambda>i. used ! i) ` set order
      then CreateHashedDescriptions h ch (mat_of T (get rp I) (DescriptorLength (get rp I))) zm
      else HashedDescriptions_default h)"
  unfolding build_index_def
  by (induction order rule: rev_induct) (auto simp: index_step_def Let_def)

lemma valid_schedule_index: "valid_schedule sched \<Longrightarrow> set (index_order sched n) = {0..<n}"
  by (metis valid_schedule_def set_mset_mset set_upt)

lemma nth_image_upt: "(\<lambda>i. xs ! i) ` {0..<length xs} = set xs"
  by (auto simp: set_conv_nth)


subsection \<open>Effect of the matching loops\<close>

lemma evolves_refl: "evolves c [] 0 s s"
  by (simp add: evolves_def)

lemma evolves_poll: "evolves c [] 0 s (poll s)"
  by (simp add: evolves_def poll_def)

lemma evolves_increment: "evolves c tasks n s s' \<Longrightarrow> evolves c tasks (n + d) s (increment d s')"
  by (simp add: evolves_def increment_def)

lemma evolves_weaken:
  "evolves c tasks n s s' \<Longrightarrow> mset tasks \<subseteq># mset tasks' \<Longrightarrow> n \<le> n' \<Longrightarrow> evolves c tasks' n' s s'"
proof -
  assume e: "evolves c tasks n s s'" and sub: "mset tasks \<subseteq># mset tasks'" and le: "n \<le> n'"
  have st: "set tasks \<subseteq> set tasks'" using sub by (metis set_mset_mono set_mset_mset)
  from e obtain log where log: "insert_calls s' = insert_calls s @ log"
      "mset (map fst log) \<subseteq># mset tasks"
      "\<forall>e \<in> set log. pair_result c (fst (fst e)) (snd (fst e)) = Some (snd e) \<and>
                  (map_PutativesMatches s (fst e) = None \<longrightarrow>
                   map_PutativesMatches s' (fst e) = Some (snd e))"
    unfolding evolves_def by blast
  have log': "mset (map fst log) \<subseteq># mset tasks'" using log(2) sub by simp
  have m: "\<forall>k. map_PutativesMatches s' k = map_PutativesMatches s k \<or>
          (map_PutativesMatches s k = None \<and> k \<in> set tasks' \<and>
           (\<exists>m. pair_result c (fst k) (snd k) = Some m \<and> map_PutativesMatches s' k = Some m))"
    using e st unfolding evolves_def by blast
  have r: "progress_count s \<le> progress_count s' \<and> progress_count s' \<le> progress_count s + n' \<and>
     cerr s' = cerr s \<and> progress_total s' = progress_total s \<and>
     cancel_polls s \<le> cancel_polls s'"
    using e le unfolding evolves_def by simp
  show ?thesis unfolding evolves_def using m log(1) log' log(3) r by blast
qed

lemma pair_task_canceled:
  "hasBeenCanceled (my_progress_bar c) (cancel_polls s) \<Longrightarrow> pair_task c I J s = poll s"
  by (simp add: pair_task_def)

lemma pair_task_no_result:
  "\<not> hasBeenCanceled (my_progress_bar c) (cancel_polls s) \<Longrightarrow> pair_result c I J = None \<Longrightarrow>
   pair_task c I J s = increment 1 (poll s)"
  by (simp add: pair_task_def pair_result_def Let_def split: if_splits)

lemma pair_task_result:
  "\<not> hasBeenCanceled (my_progress_bar c) (cancel_polls s) \<Longrightarrow> pair_result c I J = Some m \<Longrightarrow>
   pair_task c I J s = increment 1 (insert_matches (I, J) m (poll s))"
  by (simp add: pair_task_def pair_result_def Let_def split: if_splits)

lemma evolves_insert:
  "pair_result c I J = Some m \<Longrightarrow>
   evolves c [(I, J)] 1 s (increment 1 (insert_matches (I, J) m (poll s)))"
  unfolding evolves_def
  by (simp add: increment_def insert_matches_def poll_def container_insert_def
           split: option.splits)

lemma evolves_pair_task: "evolves c [(I, J)] 1 s (pair_task c I J s)"
proof (cases "hasBeenCanceled (my_progress_bar c) (cancel_polls s)")
  case True
  have "evolves c [(I, J)] 1 s (poll s)"
    by (rule evolves_weaken [OF evolves_poll]) simp_all
  then show ?thesis using True by (simp add: pair_task_canceled)
next
  case False
  show ?thesis
  proof (cases "pair_result c I J")
    case None
    have "evolves c [] (0 + 1) s (increment 1 (poll s))"
      by (rule evolves_increment [OF evolves_poll])
    then have "evolves c [(I, J)] 1 s (increment 1 (poll s))"
      by (rule evolves_weaken) simp_all
    then show ?thesis using False None by (simp add: pair_task_no_result)
  next
    case (Some m)
    then show ?thesis using False evolves_insert by (simp add: pair_task_result)
  qed
qed

lemma evolves_trans:
  assumes a: "evolves c t1 n1 s s1" and b: "evolves c t2 n2 s1 s2"
  shows "evolves c (t1 @ t2) (n1 + n2) s s2"
proof -
  from a obtain log1 where l1: "insert_calls s1 = insert_calls s @ log1"
      "mset (map fst log1) \<subseteq># mset t1"
      "\<forall>e \<in> set log1. pair_result c (fst (fst e)) (snd (fst e)) = Some (snd e) \<and>
                  (map_PutativesMatches s (fst e) = None \<longrightarrow>
                   map_PutativesMatches s1 (fst e) = Some (snd e))"
    unfolding evolves_def by blast
  from b obtain log2 where l2: "insert_calls s2 = insert_calls s1 @ log2"
      "mset (map fst log2) \<subseteq># mset t2"
      "\<forall>e \<in> set log2. pair_result c (fst (fst e)) (snd (fst e)) = Some (snd e) \<and>
                  (map_PutativesMatches s1 (fst e) = None \<longrightarrow>
                   map_PutativesMatches s2 (fst e) = Some (snd e))"
    unfolding evolves_def by blast
  have ma: "\<And>k. map_PutativesMatches s1 k = map_PutativesMatches s k \<or>
          (map_PutativesMatches s k = None \<and> k \<in> set t1 \<and>
           (\<exists>m. pair_result c (fst k) (snd k) = Some m \<and> map_PutativesMatches s1 k = Some m))"
    using a unfolding evolves_def by blast
  have mb: "\<And>k. map_PutativesMatches s2 k = map_PutativesMatches s1 k \<or>
          (map_PutativesMatches s1 k = None \<and> k \<in> set t2 \<and>
           (\<exists>m. pair_result c (fst k) (snd k) = Some m \<and> map_PutativesMatches s2 k = Some m))"
    using b unfolding evolves_def by blast
  have m: "\<forall>k. map_PutativesMatches s2 k = map_PutativesMatches s k \<or>
          (map_PutativesMatches s k = None \<and> k \<in> set (t1 @ t2) \<and>
           (\<exists>m. pair_result c (fst k) (snd k) = Some m \<and> map_PutativesMatches s2 k = Some m))"
  proof
    fix k
    show "map_PutativesMatches s2 k = map_PutativesMatches s k \<or>
          (map_PutativesMatches s k = None \<and> k \<in> set (t1 @ t2) \<and>
           (\<exists>m. pair_result c (fst k) (snd k) = Some m \<and> map_PutativesMatches s2 k = Some m))"
      using ma [of k] mb [of k] by auto
  qed
  have lg: "insert_calls s2 = insert_calls s @ (log1 @ log2)" using l1(1) l2(1) by simp
  have ls: "mset (map fst (log1 @ log2)) \<subseteq># mset (t1 @ t2)"
    using l1(2) l2(2) by (simp add: subset_mset.add_mono)
  have le: "\<forall>e \<in> set (log1 @ log2). pair_result c (fst (fst e)) (snd (fst e)) = Some (snd e) \<and>
                  (map_PutativesMatches s (fst e) = None \<longrightarrow>
                   map_PutativesMatches s2 (fst e) = Some (snd e))"
  proof
    fix e assume "e \<in> set (log1 @ log2)"
    then consider "e \<in> set log1" | "e \<in> set log2" by auto
    then show "pair_result c (fst (fst e)) (snd (fst e)) = Some (snd e) \<and>
                  (map_PutativesMatches s (fst e) = None \<longrightarrow>
                   map_PutativesMatches s2 (fst e) = Some (snd e))"
    proof cases
      case 1
      then show ?thesis using l1(3) mb [of "fst e"] by fastforce
    next
      case 2
      then show ?thesis using l2(3) ma [of "fst e"] mb [of "fst e"] by fastforce
    qed
  qed
  have r: "progress_count s \<le> progress_count s2 \<and> progress_count s2 \<le> progress_count s + (n1 + n2) \<and>
     cerr s2 = cerr s \<and> progress_total s2 = progress_total s \<and>
     cancel_polls s \<le> cancel_polls s2"
    using a b unfolding evolves_def by simp
  show ?thesis unfolding evolves_def using m lg ls le r by blast
qed

lemma evolves_inner_loop:
  "evolves c (group_tasks I idx order) (length order) s (inner_loop c I idx order s)"
proof (induction order rule: rev_induct)
  case Nil
  then show ?case by (simp add: inner_loop_def group_tasks_def evolves_refl)
next
  case (snoc j order)
  have "inner_loop c I idx (order @ [j]) s = pair_task c I (idx ! j) (inner_loop c I idx order s)"
    by (simp add: inner_loop_def)
  moreover have "group_tasks I idx (order @ [j]) = group_tasks I idx order @ [(I, idx ! j)]"
    by (simp add: group_tasks_def)
  ultimately show ?case
    using evolves_trans [OF snoc.IH evolves_pair_task [of c I "idx ! j"]] by simp
qed


lemma run_tasks_Nil: "run_tasks c sched [] = []"
  by (simp add: run_tasks_def)

lemma run_tasks_Cons:
  "run_tasks c sched ((I, idx) # groups) =
     (if RegionCount (get (regions_provider c) I) = 0 then []
      else group_tasks I idx (match_order sched I (length idx))) @ run_tasks c sched groups"
  by (simp add: run_tasks_def)

lemma pairs_of_Nil: "pairs_of [] = []"
  by (simp add: pairs_of_def)

lemma pairs_of_Cons: "pairs_of ((I, idx) # groups) = map (Pair I) idx @ pairs_of groups"
  by (simp add: pairs_of_def)

lemma evolves_group_task:
  "length (match_order sched I (length idx)) = length idx \<Longrightarrow>
   evolves c (if RegionCount (get (regions_provider c) I) = 0 then []
              else group_tasks I idx (match_order sched I (length idx)))
     (length idx) s (group_task c sched I idx s)"
proof (cases "RegionCount (get (regions_provider c) I) = 0")
  case True
  have "evolves c [] (0 + length idx) s (increment (length idx) s)"
    by (rule evolves_increment [OF evolves_refl])
  then show ?thesis using True by (simp add: group_task_def)
next
  case False
  assume "length (match_order sched I (length idx)) = length idx"
  then show ?thesis
    using False evolves_inner_loop [of c I idx "match_order sched I (length idx)" s]
    by (simp add: group_task_def)
qed

lemma valid_schedule_length: "valid_schedule sched \<Longrightarrow> length (match_order sched I n) = n"
  by (metis valid_schedule_def length_upt diff_zero size_mset)

lemma evolves_outer_loop:
  assumes v: "valid_schedule sched"
  shows "evolves c (run_tasks c sched groups) (length (pairs_of groups)) s
           (outer_loop c sched groups s)"
proof (induction groups arbitrary: s)
  case Nil
  then show ?case by (simp add: run_tasks_Nil pairs_of_Nil evolves_refl)
next
  case (Cons g groups)
  obtain I idx where g: "g = (I, idx)" by (cases g)
  show ?case
  proof (cases "hasBeenCanceled (my_progress_bar c) (cancel_polls s)")
    case True
    have "evolves c (run_tasks c sched (g # groups)) (length (pairs_of (g # groups))) s (poll s)"
      by (rule evolves_weaken [OF evolves_poll]) simp_all
    then show ?thesis using True g by simp
  next
    case False
    have a: "evolves c [] 0 s (poll s)" by (rule evolves_poll)
    have b: "evolves c (if RegionCount (get (regions_provider c) I) = 0 then []
              else group_tasks I idx (match_order sched I (length idx)))
        (length idx) (poll s) (group_task c sched I idx (poll s))"
      by (rule evolves_group_task) (simp add: valid_schedule_length [OF v])
    have "evolves c (([] @ (if RegionCount (get (regions_provider c) I) = 0 then []
              else group_tasks I idx (match_order sched I (length idx))))
              @ run_tasks c sched groups)
            ((0 + length idx) + length (pairs_of groups)) s
            (outer_loop c sched groups (group_task c sched I idx (poll s)))"
      by (rule evolves_trans [OF evolves_trans [OF a b] Cons.IH])
    then show ?thesis using False g by (simp add: run_tasks_Cons pairs_of_Cons)
  qed
qed


lemma completes_refl: "completes c [] 0 s s"
  by (auto simp: completes_def split: option.splits)

lemma completes_trans:
  assumes a: "completes c t1 n1 s s1" and b: "completes c t2 n2 s1 s2"
  shows "completes c (t1 @ t2) (n1 + n2) s s2"
proof -
  have "map_PutativesMatches s2 k =
            (case map_PutativesMatches s k of
               Some v \<Rightarrow> Some v
             | None \<Rightarrow> if k \<in> set (t1 @ t2) then pair_result c (fst k) (snd k) else None)" for k
  proof -
    have 1: "map_PutativesMatches s1 k =
            (case map_PutativesMatches s k of
               Some v \<Rightarrow> Some v
             | None \<Rightarrow> if k \<in> set t1 then pair_result c (fst k) (snd k) else None)"
      using a unfolding completes_def by blast
    have 2: "map_PutativesMatches s2 k =
            (case map_PutativesMatches s1 k of
               Some v \<Rightarrow> Some v
             | None \<Rightarrow> if k \<in> set t2 then pair_result c (fst k) (snd k) else None)"
      using b unfolding completes_def by blast
    show ?thesis unfolding 2 1 by (auto split: option.splits)
  qed
  moreover have "progress_count s2 = progress_count s + (n1 + n2)"
    using a b by (simp add: completes_def)
  ultimately show ?thesis unfolding completes_def by blast
qed

lemma completes_pair_task:
  assumes "\<not> hasBeenCanceled (my_progress_bar c) (cancel_polls s)"
  shows "completes c [(I, J)] 1 s (pair_task c I J s)"
proof (cases "pair_result c I J")
  case None
  then show ?thesis
    using assms
    by (auto simp: pair_task_no_result completes_def increment_def poll_def split: option.splits)
next
  case (Some m)
  then show ?thesis
    using assms
    by (auto simp: pair_task_result completes_def increment_def poll_def insert_matches_def
                   container_insert_def split: option.splits)
qed

lemma completes_inner_loop:
  assumes n: "never_canceled (my_progress_bar c)"
  shows "completes c (group_tasks I idx order) (length order) s (inner_loop c I idx order s)"
proof (induction order rule: rev_induct)
  case Nil
  then show ?case by (simp add: inner_loop_def group_tasks_def completes_refl)
next
  case (snoc j order)
  have "inner_loop c I idx (order @ [j]) s = pair_task c I (idx ! j) (inner_loop c I idx order s)"
    by (simp add: inner_loop_def)
  moreover have "group_tasks I idx (order @ [j]) = group_tasks I idx order @ [(I, idx ! j)]"
    by (simp add: group_tasks_def)
  moreover have "completes c [(I, idx ! j)] 1 (inner_loop c I idx order s)
                   (pair_task c I (idx ! j) (inner_loop c I idx order s))"
    by (rule completes_pair_task) (use n in \<open>simp add: never_canceled_def\<close>)
  from completes_trans [OF snoc.IH this]
  have "completes c (group_tasks I idx order @ [(I, idx ! j)]) (length order + 1) s
          (pair_task c I (idx ! j) (inner_loop c I idx order s))" .
  ultimately show ?case by simp
qed

lemma completes_poll: "completes c [] 0 s (poll s)"
  by (auto simp: completes_def poll_def split: option.splits)

lemma completes_increment: "completes c [] n s (increment n s)"
  by (auto simp: completes_def increment_def split: option.splits)

lemma completes_outer_loop:
  assumes v: "valid_schedule sched" and n: "never_canceled (my_progress_bar c)"
  shows "completes c (run_tasks c sched groups) (length (pairs_of groups)) s
           (outer_loop c sched groups s)"
proof (induction groups arbitrary: s)
  case Nil
  then show ?case by (simp add: run_tasks_Nil pairs_of_Nil completes_refl)
next
  case (Cons g groups)
  obtain I idx where g: "g = (I, idx)" by (cases g)
  have nc: "\<not> hasBeenCanceled (my_progress_bar c) (cancel_polls s)"
    using n by (simp add: never_canceled_def)
  have a: "completes c [] 0 s (poll s)" by (rule completes_poll)
  have b: "completes c (if RegionCount (get (regions_provider c) I) = 0 then []
              else group_tasks I idx (match_order sched I (length idx)))
        (length idx) (poll s) (group_task c sched I idx (poll s))"
    using completes_inner_loop [OF n, of I idx "match_order sched I (length idx)" "poll s"]
          completes_increment [of c "length idx" "poll s"]
    by (simp add: group_task_def valid_schedule_length [OF v])
  have "completes c (([] @ (if RegionCount (get (regions_provider c) I) = 0 then []
              else group_tasks I idx (match_order sched I (length idx))))
              @ run_tasks c sched groups)
            ((0 + length idx) + length (pairs_of groups)) s
            (outer_loop c sched groups (group_task c sched I idx (poll s)))"
    by (rule completes_trans [OF completes_trans [OF a b] Cons.IH])
  then show ?case using nc g by (simp add: run_tasks_Cons pairs_of_Cons)
qed




lemma mset_pairs_of_push_back_at:
  "mset (pairs_of (push_back_at k v m)) = add_mset (k, v) (mset (pairs_of m))"
proof (induction m)
  case Nil
  then show ?case by (simp add: pairs_of_def)
next
  case (Cons g m)
  obtain k' vs where g: "g = (k', vs)" by (cases g)
  show ?case using Cons.IH by (simp add: g pairs_of_Cons)
qed

lemma mset_pairs_of_map_Pairs_of: "mset (pairs_of (map_Pairs_of ps)) = mset ps"
proof -
  have "mset (pairs_of (foldl (\<lambda>m pair_idx. push_back_at (fst pair_idx) (snd pair_idx) m) m0 ps))
        = mset (pairs_of m0) + mset ps" for m0
    by (induction ps arbitrary: m0) (simp_all add: mset_pairs_of_push_back_at)
  from this [of "[]"] show ?thesis by (simp add: map_Pairs_of_def pairs_of_Nil)
qed

lemma mset_group_tasks:
  assumes "mset order = mset [0..<length idx]"
  shows "mset (group_tasks I idx order) = mset (map (Pair I) idx)"
proof -
  have "mset (map (\<lambda>j. (I, idx ! j)) order) = image_mset (\<lambda>j. (I, idx ! j)) (mset order)"
    by simp
  also have "\<dots> = mset (map (\<lambda>j. (I, idx ! j)) [0..<length idx])"
    using assms by simp
  also have "map (\<lambda>j. (I, idx ! j)) [0..<length idx] = map (Pair I) (map (\<lambda>j. idx ! j) [0..<length idx])"
    by simp
  also have "map (\<lambda>j. idx ! j) [0..<length idx] = idx" by (rule map_nth)
  finally show ?thesis by (simp add: group_tasks_def)
qed

lemma mset_run_tasks:
  assumes v: "valid_schedule sched"
  shows "mset (run_tasks c sched groups)
         = filter_mset (\<lambda>k. RegionCount (get (regions_provider c) (fst k)) \<noteq> 0)
                       (mset (pairs_of groups))"
proof (induction groups)
  case Nil
  then show ?case by (simp add: run_tasks_Nil pairs_of_Nil)
next
  case (Cons g groups)
  obtain I idx where g: "g = (I, idx)" by (cases g)
  have o: "mset (match_order sched I (length idx)) = mset [0..<length idx]"
    using v by (simp add: valid_schedule_def)
  have f: "filter_mset (\<lambda>k. RegionCount (get (regions_provider c) (fst k)) \<noteq> 0)
             (mset (map (Pair I) idx))
           = (if RegionCount (get (regions_provider c) I) = 0 then {#}
              else mset (map (Pair I) idx))"
    by (induction idx) auto
  show ?case
    using Cons.IH f mset_group_tasks [OF o, of I]
    by (simp add: g run_tasks_Cons pairs_of_Cons)
qed

lemma set_sorted_list_of_set_subset: "set (sorted_list_of_set A) \<subseteq> A"
  by (cases "finite A") simp_all

lemma mset_run_tasks_pairs:
  assumes v: "valid_schedule sched"
  shows "mset (run_tasks c sched (map_Pairs_of (sorted_list_of_set pairs)))
         = filter_mset (\<lambda>k. RegionCount (get (regions_provider c) (fst k)) \<noteq> 0)
                       (mset (sorted_list_of_set pairs))"
  by (simp add: mset_run_tasks [OF v] mset_pairs_of_map_Pairs_of)

lemma set_run_tasks_pairs:
  assumes v: "valid_schedule sched"
  shows "set (run_tasks c sched (map_Pairs_of (sorted_list_of_set pairs)))
         = {k \<in> set (sorted_list_of_set pairs). RegionCount (get (regions_provider c) (fst k)) \<noteq> 0}"
proof -
  have "set_mset (mset (run_tasks c sched (map_Pairs_of (sorted_list_of_set pairs))))
        = set_mset (filter_mset (\<lambda>k. RegionCount (get (regions_provider c) (fst k)) \<noteq> 0)
                       (mset (sorted_list_of_set pairs)))"
    by (simp only: mset_run_tasks_pairs [OF v])
  then show ?thesis by auto
qed

lemma length_pairs_of_map_Pairs_of: "length (pairs_of (map_Pairs_of ps)) = length ps"
  by (metis mset_pairs_of_map_Pairs_of size_mset)


lemma inner_loop_canceled:
  assumes l: "latched (my_progress_bar c)"
  shows "hasBeenCanceled (my_progress_bar c) (cancel_polls s) \<Longrightarrow>
         inner_loop c I idx order s = s\<lparr> cancel_polls := cancel_polls s + length order \<rparr>"
proof (induction order arbitrary: s)
  case Nil
  then show ?case by (simp add: inner_loop_def)
next
  case (Cons j order)
  have step: "inner_loop c I idx (j # order) s = inner_loop c I idx order (pair_task c I (idx ! j) s)"
    by (simp add: inner_loop_def)
  have p: "pair_task c I (idx ! j) s = poll s" using Cons.prems by (rule pair_task_canceled)
  have "hasBeenCanceled (my_progress_bar c) (cancel_polls (poll s))"
    using l Cons.prems unfolding latched_def poll_def by (metis Run.select_convs(4) Run.surjective Run.update_convs(4) le_add1)
  from Cons.IH [OF this] show ?case unfolding step p by (simp add: poll_def)
qed

lemma outer_loop_canceled:
  "hasBeenCanceled (my_progress_bar c) (cancel_polls s) \<Longrightarrow>
   outer_loop c sched groups s = (if groups = [] then s else poll s)"
  by (cases groups) auto


lemma hashed_base_match_env:
  assumes v: "valid_schedule sched"
  shows "hashed_base (match_env h flt T rp pairs ratio bar sched) =
     (\<lambda>I. let used = sorted_list_of_set (used_index_of (sorted_list_of_set pairs)) in
          if I \<in> set used
          then CreateHashedDescriptions h (init_cascade_hasher rp used)
                 (mat_of T (get rp I) (DescriptorLength (get rp I)))
                 (zero_mean_descriptor h T rp used)
          else HashedDescriptions_default h)"
proof (rule ext)
  fix I
  define used where "used = sorted_list_of_set (used_index_of (sorted_list_of_set pairs))"
  have img: "(\<lambda>i. used ! i) ` set (index_order sched (length used)) = set used"
    by (simp only: valid_schedule_index [OF v] nth_image_upt)
  have "hashed_base (match_env h flt T rp pairs ratio bar sched) I
        = build_index h T (init_cascade_hasher rp used) rp used (zero_mean_descriptor h T rp used)
            (index_order sched (length used)) I"
    by (simp add: match_env_def Let_def used_def)
  also have "\<dots> = (if I \<in> set used
          then CreateHashedDescriptions h (init_cascade_hasher rp used)
                 (mat_of T (get rp I) (DescriptorLength (get rp I)))
                 (zero_mean_descriptor h T rp used)
          else HashedDescriptions_default h)"
    by (simp only: build_index_lookup img)
  finally show "hashed_base (match_env h flt T rp pairs ratio bar sched) I =
     (let used = sorted_list_of_set (used_index_of (sorted_list_of_set pairs)) in
          if I \<in> set used
          then CreateHashedDescriptions h (init_cascade_hasher rp used)
                 (mat_of T (get rp I) (DescriptorLength (get rp I)))
                 (zero_mean_descriptor h T rp used)
          else HashedDescriptions_default h)"
    by (simp add: Let_def used_def)
qed

lemma match_env_schedule:
  assumes "valid_schedule sched" and "valid_schedule sched'"
  shows "match_env h flt T rp pairs ratio bar sched = match_env h flt T rp pairs ratio bar sched'"
proof -
  have "hashed_base (match_env h flt T rp pairs ratio bar sched)
        = hashed_base (match_env h flt T rp pairs ratio bar sched')"
    by (simp only: hashed_base_match_env [OF assms(1)] hashed_base_match_env [OF assms(2)])
  then show ?thesis by (simp add: match_env_def Let_def)
qed


subsection \<open>Matches of one pair\<close>

lemma pair_matches_unfold:
  "pair_matches c I J =
     decorator_getDeduplicated (filters c)
       (GetRegionsPositions (get (regions_provider c) I))
       (GetRegionsPositions (get (regions_provider c) J))
       (getDeduplicated (filters c)
          (emplace_matches (fst (knn_query c I J))
             (nn_ratio_indexes (fDistRatio c) (snd (knn_query c I J)))))"
  by (simp add: pair_matches_def Let_def split: prod.splits)

lemma mset_pair_matches:
  assumes "filters_contract (filters c)"
  shows "mset (pair_matches c I J)
         \<subseteq># mset (emplace_matches (fst (knn_query c I J))
                    (nn_ratio_indexes (fDistRatio c) (snd (knn_query c I J))))"
  unfolding pair_matches_unfold
  using assms unfolding filters_contract_def
  by (meson subset_mset.order_trans)

lemma distinct_map_submset:
  assumes "mset ys \<subseteq># mset xs" and "distinct (map f xs)"
  shows "distinct (map f ys)"
proof -
  from assms(1) obtain Z where "mset xs = mset ys + Z"
    by (auto simp: mset_subset_eq_exists_conv)
  moreover obtain zs where "Z = mset zs" by (metis ex_mset)
  ultimately have "mset (map f xs) = mset (map f (ys @ zs))" by simp
  then have "distinct (map f (ys @ zs))"
    using assms(2) by (metis mset_eq_imp_distinct_iff)
  then show ?thesis by simp
qed

lemma set_nn_ratio_indexes:
  "set (nn_ratio_indexes r ds) \<subseteq> {..<length ds div 2}"
  by (auto simp: nn_ratio_indexes_def NNdistanceRatio_def)

lemma distinct_emplace_queries:
  assumes "knn_contract nq nb (inds, dists)"
  shows "distinct (map idx_j (emplace_matches inds (nn_ratio_indexes r dists)))"
proof -
  have len: "length inds = length dists" using assms by (simp add: knn_contract_def)
  have d: "distinct (map (\<lambda>g. idx_i (inds ! (g * 2))) [0..<length dists div 2])"
    using assms len by (auto simp: knn_contract_def)
  have "map idx_j (emplace_matches inds (nn_ratio_indexes r dists))
        = map (\<lambda>g. idx_i (inds ! (g * 2))) (nn_ratio_indexes r dists)"
    by (simp add: emplace_matches_def comp_def)
  moreover have "distinct (map (\<lambda>g. idx_i (inds ! (g * 2))) (nn_ratio_indexes r dists))"
    unfolding nn_ratio_indexes_def NNdistanceRatio_def using d by (rule distinct_map_filter)
  ultimately show ?thesis by simp
qed

lemma pair_matches_empty_query:
  assumes f: "filters_contract (filters c)"
    and k: "knn_contract 0 nb (knn_query c I J)"
  shows "pair_matches c I J = []"
proof -
  have "fst (knn_query c I J) = []"
    using k by (cases "fst (knn_query c I J)") (simp_all add: knn_contract_def)
  moreover then have "snd (knn_query c I J) = []"
    using k by (simp add: knn_contract_def)
  ultimately have "emplace_matches (fst (knn_query c I J))
                    (nn_ratio_indexes (fDistRatio c) (snd (knn_query c I J))) = []"
    by (simp add: emplace_matches_def nn_ratio_indexes_def NNdistanceRatio_def)
  then show ?thesis using mset_pair_matches [OF f, of I J] by simp
qed

lemma pair_matches_origin:
  assumes f: "filters_contract (filters c)"
    and k: "knn_contract nq nb (knn_query c I J)"
    and m: "m \<in> set (pair_matches c I J)"
  shows "\<exists>g < length (snd (knn_query c I J)) div 2.
           g \<in> set (nn_ratio_indexes (fDistRatio c) (snd (knn_query c I J))) \<and>
           idx_i m = idx_j (fst (knn_query c I J) ! (g * 2)) \<and>
           idx_j m = idx_i (fst (knn_query c I J) ! (g * 2)) \<and>
           idx_i m < nb \<and> idx_j m < nq"
proof -
  let ?inds = "fst (knn_query c I J)" and ?dists = "snd (knn_query c I J)"
  have "m \<in> set (emplace_matches ?inds (nn_ratio_indexes (fDistRatio c) ?dists))"
    using m mset_pair_matches [OF f, of I J] by (meson mset_subset_eqD in_multiset_in_set)
  then obtain g where g: "g \<in> set (nn_ratio_indexes (fDistRatio c) ?dists)"
      "m = \<lparr> idx_i = idx_j (?inds ! (g * 2)), idx_j = idx_i (?inds ! (g * 2)) \<rparr>"
    by (auto simp: emplace_matches_def)
  have gl: "g < length ?dists div 2" using g(1) set_nn_ratio_indexes by blast
  have len: "length ?inds = length ?dists" using k by (simp add: knn_contract_def)
  have "g * 2 < length ?inds" using gl len by simp
  then have "idx_i (?inds ! (g * 2)) < nq \<and> idx_j (?inds ! (g * 2)) < nb"
    using k by (simp add: knn_contract_def list_all_length)
  then show ?thesis using g gl by auto
qed


subsection \<open>The whole run\<close>

lemma valid_schedule_sequential: "valid_schedule sequential"
  by (simp add: valid_schedule_def sequential_def)

lemma mset_dedup_on: "mset (dedup_on f xs) \<subseteq># mset xs"
  by (induction xs) (auto intro: subset_mset.order_trans)

lemma filters_contract_table: "filters_contract table_filters"
  by (simp add: filters_contract_def table_filters_def mset_dedup_on mset_remdups_subset_eq)

lemma never_canceled_None: "never_canceled None"
  by (simp add: never_canceled_def hasBeenCanceled_def)

lemma regions_provider_match_env [simp]:
  "regions_provider (match_env h flt T rp pairs ratio bar sched) = rp"
  "my_progress_bar (match_env h flt T rp pairs ratio bar sched) = bar"
  "filters (match_env h flt T rp pairs ratio bar sched) = flt"
  "fDistRatio (match_env h flt T rp pairs ratio bar sched) = ratio"
  by (simp_all add: match_env_def Let_def)

lemma restart_fields [simp]:
  "map_PutativesMatches (restart n s) = map_PutativesMatches s"
  "insert_calls (restart n s) = insert_calls s"
  "progress_count (restart n s) = 0"
  "progress_total (restart n s) = n"
  "cerr (restart n s) = cerr s"
  "cancel_polls (restart n s) = cancel_polls s"
  by (simp_all add: restart_def)

lemma evolves_impl_Match:
  assumes v: "valid_schedule sched"
  shows "evolves (match_env h flt T rp pairs ratio bar sched)
           (run_tasks (match_env h flt T rp pairs ratio bar sched) sched
              (map_Pairs_of (sorted_list_of_set pairs)))
           (card pairs) (restart (card pairs) s)
           (impl_Match h flt T rp pairs ratio bar sched s)"
  using evolves_outer_loop [OF v, of "match_env h flt T rp pairs ratio bar sched"
          "map_Pairs_of (sorted_list_of_set pairs)" "restart (card pairs) s"]
  by (simp add: impl_Match_def length_pairs_of_map_Pairs_of)

lemma completes_impl_Match:
  assumes v: "valid_schedule sched" and n: "never_canceled bar"
  shows "completes (match_env h flt T rp pairs ratio bar sched)
           (run_tasks (match_env h flt T rp pairs ratio bar sched) sched
              (map_Pairs_of (sorted_list_of_set pairs)))
           (card pairs) (restart (card pairs) s)
           (impl_Match h flt T rp pairs ratio bar sched s)"
  using completes_outer_loop [OF v, of "match_env h flt T rp pairs ratio bar sched"
          "map_Pairs_of (sorted_list_of_set pairs)" "restart (card pairs) s"] n
  by (simp add: impl_Match_def length_pairs_of_map_Pairs_of)

lemma pair_result_SomeD:
  "pair_result c I J = Some m \<Longrightarrow>
   m = pair_matches c I J \<and> m \<noteq> [] \<and>
   Regions.Type_id (get (regions_provider c) I) = Regions.Type_id (get (regions_provider c) J)"
  by (auto simp: pair_result_def split: if_splits)

lemma impl_Match_entry:
  assumes v: "valid_schedule sched"
  shows "map_PutativesMatches (impl_Match h flt T rp pairs ratio bar sched s) k
           = map_PutativesMatches s k \<or>
         (map_PutativesMatches s k = None \<and> k \<in> pairs \<and>
          RegionCount (get rp (fst k)) \<noteq> 0 \<and>
          pair_result (match_env h flt T rp pairs ratio bar sched) (fst k) (snd k)
            = map_PutativesMatches (impl_Match h flt T rp pairs ratio bar sched s) k \<and>
          map_PutativesMatches (impl_Match h flt T rp pairs ratio bar sched s) k \<noteq> None)"
proof -
  let ?c = "match_env h flt T rp pairs ratio bar sched"
  let ?t = "run_tasks ?c sched (map_Pairs_of (sorted_list_of_set pairs))"
  let ?s' = "impl_Match h flt T rp pairs ratio bar sched s"
  have "map_PutativesMatches ?s' k = map_PutativesMatches (restart (card pairs) s) k \<or>
          (map_PutativesMatches (restart (card pairs) s) k = None \<and> k \<in> set ?t \<and>
           (\<exists>m. pair_result ?c (fst k) (snd k) = Some m \<and> map_PutativesMatches ?s' k = Some m))"
    using evolves_impl_Match [OF v, of h flt T rp pairs ratio bar s]
    unfolding evolves_def by blast
  moreover have "k \<in> set ?t \<Longrightarrow> k \<in> pairs \<and> RegionCount (get rp (fst k)) \<noteq> 0"
    using set_run_tasks_pairs [OF v, of ?c pairs] set_sorted_list_of_set_subset [of pairs]
    by auto
  ultimately show ?thesis by auto
qed


lemma pair_task_progress:
  "progress_count (pair_task c I J t) = progress_count t \<or>
   progress_count (pair_task c I J t) = progress_count t + 1"
  by (simp add: pair_task_def increment_def poll_def insert_matches_def Let_def)

lemma distinct_submset:
  assumes "mset ys \<subseteq># mset xs" and "distinct xs"
  shows "distinct ys"
  using distinct_map_submset [of ys xs "\<lambda>x. x"] assms by simp

lemma valid_schedule_reversed: "valid_schedule reversed"
  by (simp add: valid_schedule_def reversed_def)

lemma latched_cancel_from: "latched (cancel_from n)"
  by (simp add: latched_def cancel_from_def hasBeenCanceled_def)

lemma pair_result_empty_query:
  assumes "filters_contract (filters c)" and "knn_contract 0 nb (knn_query c I J)"
  shows "pair_result c I J = None"
  using pair_matches_empty_query [OF assms] by (simp add: pair_result_def)

lemma pair_result_type_mismatch:
  "Regions.Type_id (get (regions_provider c) I) \<noteq> Regions.Type_id (get (regions_provider c) J) \<Longrightarrow>
   pair_result c I J = None"
  by (simp add: pair_result_def)

lemma inner_loop_Cons:
  "inner_loop c I idx (j # order) t = inner_loop c I idx order (pair_task c I (idx ! j) t)"
  by (simp add: inner_loop_def)

lemma map_inner_loop_drop_failed:
  assumes n: "never_canceled (my_progress_bar c)" and p: "pair_result c I J = None"
  shows "map_PutativesMatches (inner_loop c I idx order t)
         = map_PutativesMatches (inner_loop c I idx (filter (\<lambda>j. idx ! j \<noteq> J) order) t)"
proof (rule ext)
  fix k
  let ?o = "filter (\<lambda>j. idx ! j \<noteq> J) order"
  have a: "map_PutativesMatches (inner_loop c I idx order t) k =
            (case map_PutativesMatches t k of
               Some v \<Rightarrow> Some v
             | None \<Rightarrow> if k \<in> set (group_tasks I idx order)
                       then pair_result c (fst k) (snd k) else None)"
    using completes_inner_loop [OF n, of I idx order t] unfolding completes_def by blast
  have b: "map_PutativesMatches (inner_loop c I idx ?o t) k =
            (case map_PutativesMatches t k of
               Some v \<Rightarrow> Some v
             | None \<Rightarrow> if k \<in> set (group_tasks I idx ?o)
                       then pair_result c (fst k) (snd k) else None)"
    using completes_inner_loop [OF n, of I idx ?o t] unfolding completes_def by blast
  have s: "set (group_tasks I idx ?o) = set (group_tasks I idx order) - {(I, J)}"
    by (auto simp: group_tasks_def)
  show "map_PutativesMatches (inner_loop c I idx order t) k
        = map_PutativesMatches (inner_loop c I idx ?o t) k"
    unfolding a b s using p by (cases "k = (I, J)") (auto split: option.splits)
qed

lemma map_impl_Match_schedule:
  assumes v: "valid_schedule sched" and v': "valid_schedule sched'" and n: "never_canceled bar"
  shows "map_PutativesMatches (impl_Match h flt T rp pairs ratio bar sched s)
         = map_PutativesMatches (impl_Match h flt T rp pairs ratio bar sched' s)"
proof (rule ext)
  fix k
  let ?c = "match_env h flt T rp pairs ratio bar sched"
  let ?c' = "match_env h flt T rp pairs ratio bar sched'"
  let ?ps = "map_Pairs_of (sorted_list_of_set pairs)"
  have c: "?c' = ?c" by (rule match_env_schedule [OF v' v])
  have a: "map_PutativesMatches (impl_Match h flt T rp pairs ratio bar sched s) k =
            (case map_PutativesMatches (restart (card pairs) s) k of
               Some v \<Rightarrow> Some v
             | None \<Rightarrow> if k \<in> set (run_tasks ?c sched ?ps)
                       then pair_result ?c (fst k) (snd k) else None)"
    using completes_impl_Match [OF v n, of h flt T rp pairs ratio s]
    unfolding completes_def by blast
  have b: "map_PutativesMatches (impl_Match h flt T rp pairs ratio bar sched' s) k =
            (case map_PutativesMatches (restart (card pairs) s) k of
               Some v \<Rightarrow> Some v
             | None \<Rightarrow> if k \<in> set (run_tasks ?c' sched' ?ps)
                       then pair_result ?c' (fst k) (snd k) else None)"
    using completes_impl_Match [OF v' n, of h flt T rp pairs ratio s]
    unfolding completes_def by blast
  have t: "set (run_tasks ?c sched' ?ps) = set (run_tasks ?c sched ?ps)"
    unfolding set_run_tasks_pairs [OF v] set_run_tasks_pairs [OF v'] by simp
  show "map_PutativesMatches (impl_Match h flt T rp pairs ratio bar sched s) k
        = map_PutativesMatches (impl_Match h flt T rp pairs ratio bar sched' s) k"
    unfolding a b c t ..
qed

lemma latched_step:
  "latched bar \<Longrightarrow> hasBeenCanceled bar n \<Longrightarrow> hasBeenCanceled bar (n + d)"
  unfolding latched_def by (metis le_add1)

lemma loops_canceled:
  assumes l: "latched (my_progress_bar c)"
    and h: "hasBeenCanceled (my_progress_bar c) (cancel_polls t)"
  shows "\<exists>n. outer_loop c sched groups (inner_loop c I idx order t)
             = t\<lparr> cancel_polls := cancel_polls t + n \<rparr>"
proof -
  let ?t1 = "t\<lparr> cancel_polls := cancel_polls t + length order \<rparr>"
  have i: "inner_loop c I idx order t = ?t1" by (rule inner_loop_canceled [OF l h])
  have "hasBeenCanceled (my_progress_bar c) (cancel_polls ?t1)"
    using latched_step [OF l h, of "length order"] by simp
  then have "outer_loop c sched groups ?t1 = (if groups = [] then ?t1 else poll ?t1)"
    by (rule outer_loop_canceled)
  then show ?thesis
    unfolding i
    by (cases "groups = []") (auto simp: poll_def intro: exI [of _ "length order"] exI [of _ "length order + 1"])
qed

lemma outer_loop_preserves:
  assumes v: "valid_schedule sched" and m: "map_PutativesMatches t k = Some ms"
  shows "map_PutativesMatches (outer_loop c sched groups t) k = Some ms"
proof -
  have "map_PutativesMatches (outer_loop c sched groups t) k = map_PutativesMatches t k \<or>
          (map_PutativesMatches t k = None \<and> k \<in> set (run_tasks c sched groups) \<and>
           (\<exists>m. pair_result c (fst k) (snd k) = Some m \<and>
                map_PutativesMatches (outer_loop c sched groups t) k = Some m))"
    using evolves_outer_loop [OF v, of c groups t] unfolding evolves_def by blast
  with m show ?thesis by auto
qed

lemma outer_loop_whole_entries:
  assumes v: "valid_schedule sched"
    and m: "map_PutativesMatches (outer_loop c sched groups t) k \<noteq> map_PutativesMatches t k"
  shows "map_PutativesMatches (outer_loop c sched groups t) k
         = Some (pair_matches c (fst k) (snd k))"
proof -
  have "map_PutativesMatches (outer_loop c sched groups t) k = map_PutativesMatches t k \<or>
          (map_PutativesMatches t k = None \<and> k \<in> set (run_tasks c sched groups) \<and>
           (\<exists>m. pair_result c (fst k) (snd k) = Some m \<and>
                map_PutativesMatches (outer_loop c sched groups t) k = Some m))"
    using evolves_outer_loop [OF v, of c groups t] unfolding evolves_def by blast
  with m obtain ms where "pair_result c (fst k) (snd k) = Some ms"
      "map_PutativesMatches (outer_loop c sched groups t) k = Some ms" by auto
  then show ?thesis using pair_result_SomeD [of c "fst k" "snd k" ms] by simp
qed

lemma used_images_sorted:
  assumes "finite pairs"
  shows "sorted_list_of_set (used_index_of (sorted_list_of_set pairs))
         = sorted_list_of_set (fst ` pairs \<union> snd ` pairs)"
  using assms by (simp add: used_index_of_eq)

lemma impl_Match_new_entry:
  assumes v: "valid_schedule sched"
    and st: "map_PutativesMatches (impl_Match h flt T rp pairs ratio bar sched s) (I, J) = Some ms"
    and new: "map_PutativesMatches s (I, J) = None"
  shows "ms = pair_matches (match_env h flt T rp pairs ratio bar sched) I J"
proof -
  from impl_Match_entry [OF v, of h flt T rp pairs ratio bar s "(I, J)"] st new
  have "pair_result (match_env h flt T rp pairs ratio bar sched) I J = Some ms" by auto
  then show ?thesis by (rule pair_result_SomeD [THEN conjunct1])
qed

section \<open>The distance ratio test\<close>

text \<open>
  C1. In the task of a pair \<open>(I, J)\<close>, with \<open>ratio\<close> the configured distance
  ratio: the matches of the pair are built from the groups retained by the
  ratio filter applied to the distances the engine returned; and for every
  group \<open>g\<close> of two consecutive distances \<open>d1, d2\<close> among them, \<open>g\<close> is retained
  exactly when \<open>d1 < Square ratio * d2\<close>, so a group with
  \<open>d1 = Square ratio * d2\<close> is rejected. Nothing about the arithmetic of \<open>'f\<close>
  is used beyond \<open><\<close> being irreflexive.
\<close>

theorem ratio_test_retained_iff:
  fixes ratio :: "'f::{zero,times,preorder}"
  shows "let c = match_env h flt T rp pairs ratio bar sched;
             pvec_distances = snd (knn_query c I J);
             retained = nn_ratio_indexes ratio pvec_distances
         in pair_matches c I J
              = decorator_getDeduplicated flt
                  (GetRegionsPositions (get rp I)) (GetRegionsPositions (get rp J))
                  (getDeduplicated flt (emplace_matches (fst (knn_query c I J)) retained)) \<and>
            set retained \<subseteq> {..<length pvec_distances div 2} \<and>
            (\<forall>g < length pvec_distances div 2.
               ((g \<in> set retained) \<longleftrightarrow>
                  pvec_distances ! (g * 2) < Square ratio * pvec_distances ! (g * 2 + 1)) \<and>
               (pvec_distances ! (g * 2) = Square ratio * pvec_distances ! (g * 2 + 1) \<longrightarrow>
                  g \<notin> set retained))"
proof -
  let ?c = "match_env h flt T rp pairs ratio bar sched"
  let ?d = "snd (knn_query ?c I J)"
  have 1: "pair_matches ?c I J
              = decorator_getDeduplicated flt
                  (GetRegionsPositions (get rp I)) (GetRegionsPositions (get rp J))
                  (getDeduplicated flt
                     (emplace_matches (fst (knn_query ?c I J)) (nn_ratio_indexes ratio ?d)))"
    using pair_matches_unfold [of ?c I J] by simp
  have 2: "set (nn_ratio_indexes ratio ?d) \<subseteq> {..<length ?d div 2}"
    by (rule set_nn_ratio_indexes)
  have 3: "\<forall>g < length ?d div 2.
               ((g \<in> set (nn_ratio_indexes ratio ?d)) \<longleftrightarrow>
                  ?d ! (g * 2) < Square ratio * ?d ! (g * 2 + 1)) \<and>
               (?d ! (g * 2) = Square ratio * ?d ! (g * 2 + 1) \<longrightarrow>
                  g \<notin> set (nn_ratio_indexes ratio ?d))"
    by (auto simp: nn_ratio_indexes_def NNdistanceRatio_def)
  show ?thesis unfolding Let_def by (intro conjI 1 2 3)
qed

theorem ratio_test_retained_iff_witness:
  "snd (knn_query (match_env table_hasher table_filters float table_provider table_pairs (4 / 5)
                     None sequential) 0 1) = [1, 4, 16, 25, 2, 8] \<and>
   nn_ratio_indexes (4 / 5) [1, 4, 16, 25, 2, 8 :: real] = [0, 2] \<and>
   (1::nat) < length [1, 4, 16, 25, 2, 8 :: real] div 2 \<and>
   [1, 4, 16, 25, 2, 8 :: real] ! (1 * 2) = Square (4 / 5) * [1, 4, 16, 25, 2, 8] ! (1 * 2 + 1) \<and>
   1 \<notin> set (nn_ratio_indexes (4 / 5) [1, 4, 16, 25, 2, 8 :: real]) \<and>
   (0 \<in> set (nn_ratio_indexes (4 / 5) [1, 4, 16, 25, 2, 8 :: real]) \<longleftrightarrow>
      [1, 4, 16, 25, 2, 8 :: real] ! (0 * 2) < Square (4 / 5) * [1, 4, 16, 25, 2, 8] ! (0 * 2 + 1))"
proof -
  let ?c = "match_env table_hasher table_filters float table_provider table_pairs (4 / 5)
              None sequential"
  have d: "snd (knn_query ?c 0 1) = [1, 4, 16, 25, 2, 8]" by code_simp
  have r: "nn_ratio_indexes (4 / 5) [1, 4, 16, 25, 2, 8 :: real] = [0, 2]" by code_simp
  have h0: "(0::nat) < length [1, 4, 16, 25, 2, 8 :: real] div 2" by simp
  have h1: "(1::nat) < length [1, 4, 16, 25, 2, 8 :: real] div 2" by simp
  have e1: "[1, 4, 16, 25, 2, 8 :: real] ! (1 * 2)
            = Square (4 / 5) * [1, 4, 16, 25, 2, 8] ! (1 * 2 + 1)"
    by (simp add: Square_def)
  note R = ratio_test_retained_iff
             [of table_hasher table_filters float table_provider table_pairs "4 / 5" None
                 sequential 0 1, unfolded Let_def d]
  from R h1 e1 have a: "1 \<notin> set (nn_ratio_indexes (4 / 5) [1, 4, 16, 25, 2, 8 :: real])"
    by blast
  from R h0 have b: "0 \<in> set (nn_ratio_indexes (4 / 5) [1, 4, 16, 25, 2, 8 :: real]) \<longleftrightarrow>
      [1, 4, 16, 25, 2, 8 :: real] ! (0 * 2) < Square (4 / 5) * [1, 4, 16, 25, 2, 8] ! (0 * 2 + 1)"
    by blast
  show ?thesis by (intro conjI d r h1 e1 a b)
qed

section \<open>Unsupported configurations\<close>

text \<open>
  C6. With a null provider, or a provider that stores binary descriptors, the
  call returns with nothing changed. With a provider whose scalar type is
  neither of the two supported ones, the only change is one line on the error
  stream. In all three cases no matching work is done (no entry, no insert, no
  progress, no cancellation check), so a container that was empty at the call
  is empty at the return; and the call returns.
\<close>

theorem Match_unsupported_configuration:
  "Match tn_uchar tn_float h flt ratio None pairs bar sched s = s \<and>
   (IsBinary rp \<longrightarrow> Match tn_uchar tn_float h flt ratio (Some rp) pairs bar sched s = s) \<and>
   (\<not> IsBinary rp \<and> Regions_Provider.Type_id rp \<noteq> tn_uchar
      \<and> Regions_Provider.Type_id rp \<noteq> tn_float \<longrightarrow>
    Match tn_uchar tn_float h flt ratio (Some rp) pairs bar sched s
      = s\<lparr> cerr := cerr s @ [''Matcher not implemented for this region type''] \<rparr>) \<and>
   (provider = None \<or>
    (\<exists>p. provider = Some p \<and>
         (IsBinary p \<or> Regions_Provider.Type_id p \<noteq> tn_uchar
                        \<and> Regions_Provider.Type_id p \<noteq> tn_float)) \<longrightarrow>
    (let s' = Match tn_uchar tn_float h flt ratio provider pairs bar sched s
     in map_PutativesMatches s' = map_PutativesMatches s \<and>
        insert_calls s' = insert_calls s \<and>
        progress_count s' = progress_count s \<and> progress_total s' = progress_total s \<and>
        cancel_polls s' = cancel_polls s \<and>
        (map_PutativesMatches s = Map.empty \<longrightarrow> map_PutativesMatches s' = Map.empty)))"
  by (auto simp: Match_def Let_def)

theorem Match_unsupported_configuration_witness:
  "IsBinary (table_provider\<lparr> IsBinary := True \<rparr>) \<and>
   Match ''h'' ''f'' table_hasher table_filters (4 / 5)
     (Some (table_provider\<lparr> IsBinary := True \<rparr>)) {(0, 1)} None sequential fresh = fresh \<and>
   \<not> IsBinary (table_provider\<lparr> Regions_Provider.Type_id := ''d'' \<rparr>) \<and>
   Regions_Provider.Type_id (table_provider\<lparr> Regions_Provider.Type_id := ''d'' \<rparr>) \<noteq> ''h'' \<and>
   Regions_Provider.Type_id (table_provider\<lparr> Regions_Provider.Type_id := ''d'' \<rparr>) \<noteq> ''f'' \<and>
   Match ''h'' ''f'' table_hasher table_filters (4 / 5)
     (Some (table_provider\<lparr> Regions_Provider.Type_id := ''d'' \<rparr>)) {(0, 1)} None sequential fresh
     = fresh\<lparr> cerr := [''Matcher not implemented for this region type''] \<rparr> \<and>
   map_PutativesMatches fresh = Map.empty \<and>
   map_PutativesMatches
     (Match ''h'' ''f'' table_hasher table_filters (4 / 5)
        (Some (table_provider\<lparr> Regions_Provider.Type_id := ''d'' \<rparr>)) {(0, 1)} None sequential
        fresh) = Map.empty \<and>
   map_PutativesMatches
     (Match ''h'' ''f'' table_hasher table_filters (4 / 5) (Some table_provider) {(0, 1)} None
        sequential fresh) \<noteq> Map.empty"
proof -
  let ?b = "table_provider\<lparr> IsBinary := True \<rparr>"
  let ?d = "table_provider\<lparr> Regions_Provider.Type_id := ''d'' \<rparr>"
  have b: "IsBinary ?b" by simp
  have t: "\<not> IsBinary ?d \<and> Regions_Provider.Type_id ?d \<noteq> ''h''
           \<and> Regions_Provider.Type_id ?d \<noteq> ''f''"
    by (simp add: table_provider_def)
  have c: "cerr fresh = []" by (simp add: fresh_def)
  have e: "map_PutativesMatches fresh = Map.empty" by (simp add: fresh_def)
  note M = Match_unsupported_configuration
             [of "''h''" "''f''" table_hasher table_filters "4 / 5" "{(0, 1)}" None sequential fresh]
  from M [of ?b] b
  have r1: "Match ''h'' ''f'' table_hasher table_filters (4 / 5) (Some ?b) {(0, 1)} None
              sequential fresh = fresh"
    by blast
  from M [of ?d] t c
  have r2: "Match ''h'' ''f'' table_hasher table_filters (4 / 5) (Some ?d) {(0, 1)} None
              sequential fresh
            = fresh\<lparr> cerr := [''Matcher not implemented for this region type''] \<rparr>"
    by simp
  from M [of ?d "Some ?d"] t e
  have r3: "map_PutativesMatches
     (Match ''h'' ''f'' table_hasher table_filters (4 / 5) (Some ?d) {(0, 1)} None sequential
        fresh) = Map.empty"
    unfolding Let_def by blast
  have "map_PutativesMatches
     (Match ''h'' ''f'' table_hasher table_filters (4 / 5) (Some table_provider) {(0, 1)} None
        sequential fresh) (0, 1) \<noteq> None"
    by code_simp
  then have r4: "map_PutativesMatches
     (Match ''h'' ''f'' table_hasher table_filters (4 / 5) (Some table_provider) {(0, 1)} None
        sequential fresh) \<noteq> Map.empty"
    by auto
  from b r1 t r2 e r3 r4 show ?thesis by blast
qed

section \<open>Output keys\<close>

text \<open>
  C5. For a run of \<^verbatim>\<open>impl::Match\<close> under any schedule of the parallel loops: a key
  whose entry differs after the run is a pair of the input set, was absent
  before and now holds a non-empty list; every entry present before the run is
  still there unchanged; the calls of \<^verbatim>\<open>insert\<close> made by the run have pairwise
  different keys, all from the input set, each with a non-empty list that, if
  the key was absent at the start, is the entry found at the end; the progress
  count ends at most at the number of pairs (and exactly there when nothing is
  canceled), and one pair's task adds nothing or one to it.
\<close>

theorem output_key_discipline:
  assumes v: "valid_schedule sched"
  shows "let c = match_env h flt T rp pairs ratio bar sched;
             s' = impl_Match h flt T rp pairs ratio bar sched s
         in (\<forall>k. map_PutativesMatches s' k \<noteq> map_PutativesMatches s k \<longrightarrow>
                  k \<in> pairs \<and> map_PutativesMatches s k = None \<and>
                  (\<exists>m. m \<noteq> [] \<and> map_PutativesMatches s' k = Some m)) \<and>
            (\<forall>k m. map_PutativesMatches s k = Some m \<longrightarrow> map_PutativesMatches s' k = Some m) \<and>
            (\<exists>log. insert_calls s' = insert_calls s @ log \<and>
                   distinct (map fst log) \<and> fst ` set log \<subseteq> pairs \<and>
                   (\<forall>e \<in> set log. snd e \<noteq> [] \<and>
                      (map_PutativesMatches s (fst e) = None \<longrightarrow>
                       map_PutativesMatches s' (fst e) = Some (snd e)))) \<and>
            progress_total s' = card pairs \<and> progress_count s' \<le> card pairs \<and>
            (never_canceled bar \<longrightarrow> progress_count s' = card pairs) \<and>
            (\<forall>I J t. progress_count (pair_task c I J t) = progress_count t \<or>
                     progress_count (pair_task c I J t) = progress_count t + 1)"
proof -
  let ?c = "match_env h flt T rp pairs ratio bar sched"
  let ?t = "run_tasks ?c sched (map_Pairs_of (sorted_list_of_set pairs))"
  let ?s' = "impl_Match h flt T rp pairs ratio bar sched s"
  have ev: "evolves ?c ?t (card pairs) (restart (card pairs) s) ?s'"
    by (rule evolves_impl_Match [OF v])
  have entry: "\<And>k. map_PutativesMatches ?s' k = map_PutativesMatches s k \<or>
         (map_PutativesMatches s k = None \<and> k \<in> pairs \<and>
          RegionCount (get rp (fst k)) \<noteq> 0 \<and>
          pair_result ?c (fst k) (snd k) = map_PutativesMatches ?s' k \<and>
          map_PutativesMatches ?s' k \<noteq> None)"
    by (rule impl_Match_entry [OF v])
  have 1: "\<forall>k. map_PutativesMatches ?s' k \<noteq> map_PutativesMatches s k \<longrightarrow>
                  k \<in> pairs \<and> map_PutativesMatches s k = None \<and>
                  (\<exists>m. m \<noteq> [] \<and> map_PutativesMatches ?s' k = Some m)"
  proof (intro allI impI)
    fix k assume ne: "map_PutativesMatches ?s' k \<noteq> map_PutativesMatches s k"
    with entry [of k] have e: "map_PutativesMatches s k = None" "k \<in> pairs"
      "pair_result ?c (fst k) (snd k) = map_PutativesMatches ?s' k"
      "map_PutativesMatches ?s' k \<noteq> None" by auto
    then obtain m where m: "map_PutativesMatches ?s' k = Some m" by auto
    with e(3) have "pair_result ?c (fst k) (snd k) = Some m" by simp
    then have "m \<noteq> []" by (rule pair_result_SomeD [THEN conjunct2, THEN conjunct1])
    with e m show "k \<in> pairs \<and> map_PutativesMatches s k = None \<and>
                  (\<exists>m. m \<noteq> [] \<and> map_PutativesMatches ?s' k = Some m)" by blast
  qed
  have 2: "\<forall>k m. map_PutativesMatches s k = Some m \<longrightarrow> map_PutativesMatches ?s' k = Some m"
  proof (intro allI impI)
    fix k m assume "map_PutativesMatches s k = Some m"
    with entry [of k] show "map_PutativesMatches ?s' k = Some m" by auto
  qed
  from ev obtain log where log: "insert_calls ?s' = insert_calls (restart (card pairs) s) @ log"
      "mset (map fst log) \<subseteq># mset ?t"
      "\<forall>e \<in> set log. pair_result ?c (fst (fst e)) (snd (fst e)) = Some (snd e) \<and>
                  (map_PutativesMatches (restart (card pairs) s) (fst e) = None \<longrightarrow>
                   map_PutativesMatches ?s' (fst e) = Some (snd e))"
    unfolding evolves_def by blast
  have sub: "mset ?t \<subseteq># mset (sorted_list_of_set pairs)"
    by (simp add: mset_run_tasks_pairs [OF v])
  have lsub: "mset (map fst log) \<subseteq># mset (sorted_list_of_set pairs)"
    using log(2) sub by (rule subset_mset.order_trans)
  have d: "distinct (map fst log)"
    by (rule distinct_submset [OF lsub]) simp
  have "set (map fst log) \<subseteq> set (sorted_list_of_set pairs)"
    using lsub by (metis set_mset_mono set_mset_mset)
  then have inp: "fst ` set log \<subseteq> pairs"
    using set_sorted_list_of_set_subset [of pairs] by auto
  have le: "\<forall>e \<in> set log. snd e \<noteq> [] \<and>
                      (map_PutativesMatches s (fst e) = None \<longrightarrow>
                       map_PutativesMatches ?s' (fst e) = Some (snd e))"
  proof
    fix e assume "e \<in> set log"
    with log(3) have pr: "pair_result ?c (fst (fst e)) (snd (fst e)) = Some (snd e)"
      and st: "map_PutativesMatches (restart (card pairs) s) (fst e) = None \<longrightarrow>
                   map_PutativesMatches ?s' (fst e) = Some (snd e)" by blast+
    from pr have "snd e \<noteq> []" by (rule pair_result_SomeD [THEN conjunct2, THEN conjunct1])
    with st show "snd e \<noteq> [] \<and>
                      (map_PutativesMatches s (fst e) = None \<longrightarrow>
                       map_PutativesMatches ?s' (fst e) = Some (snd e))" by simp
  qed
  have 3: "\<exists>log. insert_calls ?s' = insert_calls s @ log \<and>
                   distinct (map fst log) \<and> fst ` set log \<subseteq> pairs \<and>
                   (\<forall>e \<in> set log. snd e \<noteq> [] \<and>
                      (map_PutativesMatches s (fst e) = None \<longrightarrow>
                       map_PutativesMatches ?s' (fst e) = Some (snd e)))"
    using log(1) d inp le by (intro exI [of _ log]) simp
  have 4: "progress_total ?s' = card pairs \<and> progress_count ?s' \<le> card pairs"
  proof -
    from ev have "progress_count ?s' \<le> progress_count (restart (card pairs) s) + card pairs"
      and "progress_total ?s' = progress_total (restart (card pairs) s)"
      unfolding evolves_def by blast+
    then show ?thesis by simp
  qed
  have 5: "never_canceled bar \<longrightarrow> progress_count ?s' = card pairs"
  proof
    assume "never_canceled bar"
    from completes_impl_Match [OF v this, of h flt T rp pairs ratio s]
    have "progress_count ?s' = progress_count (restart (card pairs) s) + card pairs"
      unfolding completes_def by blast
    then show "progress_count ?s' = card pairs" by simp
  qed
  have 6: "\<forall>I J t. progress_count (pair_task ?c I J t) = progress_count t \<or>
                     progress_count (pair_task ?c I J t) = progress_count t + 1"
    by (intro allI) (rule pair_task_progress)
  show ?thesis
    unfolding Let_def by (intro conjI 1 2 3 6 5 conjunct1 [OF 4] conjunct2 [OF 4])
qed


theorem output_key_discipline_witness:
  "valid_schedule sequential \<and> never_canceled None \<and>
   map_PutativesMatches
     (impl_Match table_hasher table_filters float table_provider table_pairs (4 / 5) None
        sequential table_start) (0, 1) \<noteq> map_PutativesMatches table_start (0, 1) \<and>
   map_PutativesMatches table_start (7, 8) = Some [\<lparr> idx_i = 0, idx_j = 0 \<rparr>] \<and>
   (let c = match_env table_hasher table_filters float table_provider table_pairs (4 / 5) None
              sequential;
        s' = impl_Match table_hasher table_filters float table_provider table_pairs (4 / 5) None
               sequential table_start
    in (\<forall>k. map_PutativesMatches s' k \<noteq> map_PutativesMatches table_start k \<longrightarrow>
             k \<in> table_pairs \<and> map_PutativesMatches table_start k = None \<and>
             (\<exists>m. m \<noteq> [] \<and> map_PutativesMatches s' k = Some m)) \<and>
       (\<forall>k m. map_PutativesMatches table_start k = Some m \<longrightarrow>
              map_PutativesMatches s' k = Some m) \<and>
       (\<exists>log. insert_calls s' = insert_calls table_start @ log \<and>
              distinct (map fst log) \<and> fst ` set log \<subseteq> table_pairs \<and>
              (\<forall>e \<in> set log. snd e \<noteq> [] \<and>
                 (map_PutativesMatches table_start (fst e) = None \<longrightarrow>
                  map_PutativesMatches s' (fst e) = Some (snd e)))) \<and>
       progress_total s' = card table_pairs \<and> progress_count s' \<le> card table_pairs \<and>
       (never_canceled None \<longrightarrow> progress_count s' = card table_pairs) \<and>
       (\<forall>I J t. progress_count (pair_task c I J t) = progress_count t \<or>
                progress_count (pair_task c I J t) = progress_count t + 1))"
proof -
  have a: "map_PutativesMatches
     (impl_Match table_hasher table_filters float table_provider table_pairs (4 / 5) None
        sequential table_start) (0, 1) \<noteq> map_PutativesMatches table_start (0, 1)"
    by code_simp
  have b: "map_PutativesMatches table_start (7, 8) = Some [\<lparr> idx_i = 0, idx_j = 0 \<rparr>]"
    by code_simp
  show ?thesis
    by (intro conjI valid_schedule_sequential never_canceled_None a b
          output_key_discipline [OF valid_schedule_sequential])
qed

section \<open>Empty region sets\<close>

text \<open>
  C3. If image \<open>I\<close> or image \<open>J\<close> has no descriptor, a run of \<^verbatim>\<open>impl::Match\<close>
  leaves the container's entry for \<open>(I, J)\<close> as it was, so a key absent before
  the run is absent after it. (When only \<open>J\<close> is empty the query is made, and
  the engine, asked with no query descriptor, answers within its contract.)
  When \<open>I\<close> is empty, the body of the outer loop for \<open>I\<close>'s group does nothing
  but add the size of the group to the progress count, and the loop goes on
  with the next group. With no cancellation the count ends at the number of
  pairs.
\<close>

theorem empty_region_invariance:
  assumes v: "valid_schedule sched" and f: "filters_contract flt"
    and e: "RegionCount (get rp I) = 0 \<or> RegionCount (get rp J) = 0"
    and k: "RegionCount (get rp I) \<noteq> 0 \<Longrightarrow>
            knn_contract (RegionCount (get rp J)) (RegionCount (get rp I))
              (knn_query (match_env h flt T rp pairs ratio bar sched) I J)"
  shows "let c = match_env h flt T rp pairs ratio bar sched;
             s' = impl_Match h flt T rp pairs ratio bar sched s
         in map_PutativesMatches s' (I, J) = map_PutativesMatches s (I, J) \<and>
            (map_PutativesMatches s (I, J) = None \<longrightarrow> map_PutativesMatches s' (I, J) = None) \<and>
            (RegionCount (get rp I) = 0 \<longrightarrow>
               (\<forall>indexToCompare t.
                  group_task c sched I indexToCompare t = increment (length indexToCompare) t) \<and>
               (\<forall>indexToCompare groups t.
                  \<not> hasBeenCanceled bar (cancel_polls t) \<longrightarrow>
                  outer_loop c sched ((I, indexToCompare) # groups) t
                    = outer_loop c sched groups (increment (length indexToCompare) (poll t)))) \<and>
            (never_canceled bar \<longrightarrow> progress_count s' = card pairs)"
proof -
  let ?c = "match_env h flt T rp pairs ratio bar sched"
  let ?s' = "impl_Match h flt T rp pairs ratio bar sched s"
  have 1: "map_PutativesMatches ?s' (I, J) = map_PutativesMatches s (I, J)"
  proof (rule ccontr)
    assume ne: "map_PutativesMatches ?s' (I, J) \<noteq> map_PutativesMatches s (I, J)"
    with impl_Match_entry [OF v, of h flt T rp pairs ratio bar s "(I, J)"]
    have r: "RegionCount (get rp I) \<noteq> 0"
      and p: "pair_result ?c I J = map_PutativesMatches ?s' (I, J)"
      and n: "map_PutativesMatches ?s' (I, J) \<noteq> None" by auto
    from r e have "RegionCount (get rp J) = 0" by simp
    with k [OF r] have "knn_contract 0 (RegionCount (get rp I)) (knn_query ?c I J)" by simp
    then have "pair_result ?c I J = None"
      using f by (intro pair_result_empty_query [where nb = "RegionCount (get rp I)"]) simp_all
    with p n show False by simp
  qed
  have 2: "RegionCount (get rp I) = 0 \<longrightarrow>
               (\<forall>indexToCompare t.
                  group_task ?c sched I indexToCompare t = increment (length indexToCompare) t) \<and>
               (\<forall>indexToCompare groups t.
                  \<not> hasBeenCanceled bar (cancel_polls t) \<longrightarrow>
                  outer_loop ?c sched ((I, indexToCompare) # groups) t
                    = outer_loop ?c sched groups (increment (length indexToCompare) (poll t)))"
    by (simp add: group_task_def)
  have 3: "never_canceled bar \<longrightarrow> progress_count ?s' = card pairs"
  proof
    assume "never_canceled bar"
    from completes_impl_Match [OF v this, of h flt T rp pairs ratio s]
    have "progress_count ?s' = progress_count (restart (card pairs) s) + card pairs"
      unfolding completes_def by blast
    then show "progress_count ?s' = card pairs" by simp
  qed
  show ?thesis unfolding Let_def using 1 2 3 by simp
qed

theorem empty_region_invariance_witness:
  "valid_schedule sequential \<and> filters_contract table_filters \<and>
   RegionCount (get table_provider 0) \<noteq> 0 \<and> RegionCount (get table_provider 2) = 0 \<and>
   knn_contract (RegionCount (get table_provider 2)) (RegionCount (get table_provider 0))
     (knn_query (match_env table_hasher table_filters float table_provider table_pairs (4 / 5)
                   None sequential) 0 2) \<and>
   never_canceled None \<and>
   (let c = match_env table_hasher table_filters float table_provider table_pairs (4 / 5) None
              sequential;
        s' = impl_Match table_hasher table_filters float table_provider table_pairs (4 / 5) None
               sequential table_start
    in map_PutativesMatches s' (0, 2) = map_PutativesMatches table_start (0, 2) \<and>
       (map_PutativesMatches table_start (0, 2) = None \<longrightarrow> map_PutativesMatches s' (0, 2) = None) \<and>
       (RegionCount (get table_provider 0) = 0 \<longrightarrow>
          (\<forall>indexToCompare t.
             group_task c sequential 0 indexToCompare t = increment (length indexToCompare) t) \<and>
          (\<forall>indexToCompare groups t.
             \<not> hasBeenCanceled None (cancel_polls t) \<longrightarrow>
             outer_loop c sequential ((0, indexToCompare) # groups) t
               = outer_loop c sequential groups (increment (length indexToCompare) (poll t)))) \<and>
       (never_canceled None \<longrightarrow> progress_count s' = card table_pairs)) \<and>
   (let c = match_env table_hasher table_filters float table_provider table_pairs (4 / 5) None
              sequential;
        s' = impl_Match table_hasher table_filters float table_provider table_pairs (4 / 5) None
               sequential table_start
    in map_PutativesMatches s' (2, 1) = map_PutativesMatches table_start (2, 1) \<and>
       (map_PutativesMatches table_start (2, 1) = None \<longrightarrow> map_PutativesMatches s' (2, 1) = None) \<and>
       (RegionCount (get table_provider 2) = 0 \<longrightarrow>
          (\<forall>indexToCompare t.
             group_task c sequential 2 indexToCompare t = increment (length indexToCompare) t) \<and>
          (\<forall>indexToCompare groups t.
             \<not> hasBeenCanceled None (cancel_polls t) \<longrightarrow>
             outer_loop c sequential ((2, indexToCompare) # groups) t
               = outer_loop c sequential groups (increment (length indexToCompare) (poll t)))) \<and>
       (never_canceled None \<longrightarrow> progress_count s' = card table_pairs))"
proof -
  have r0: "RegionCount (get table_provider 0) \<noteq> 0" by code_simp
  have r2: "RegionCount (get table_provider 2) = 0" by code_simp
  have k: "knn_contract (RegionCount (get table_provider 2)) (RegionCount (get table_provider 0))
     (knn_query (match_env table_hasher table_filters float table_provider table_pairs (4 / 5)
                   None sequential) 0 2)"
    by code_simp
  have e02: "RegionCount (get table_provider 0) = 0 \<or> RegionCount (get table_provider 2) = 0"
    using r2 by simp
  have e21: "RegionCount (get table_provider 2) = 0 \<or> RegionCount (get table_provider 1) = 0"
    using r2 by simp
  show ?thesis
    by (intro conjI valid_schedule_sequential filters_contract_table r0 r2 k never_canceled_None
          empty_region_invariance [OF valid_schedule_sequential filters_contract_table e02 k]
          empty_region_invariance [OF valid_schedule_sequential filters_contract_table e21])
       (simp add: r2)
qed

section \<open>Descriptor type mismatch\<close>

text \<open>
  C4. If images \<open>I\<close> and \<open>J\<close> report different scalar types, a run leaves the
  container's entry for \<open>(I, J)\<close> as it was. The task of the pair, when it runs
  (its cancellation check answers false), does nothing but count one unit of
  progress, and the inner loop goes on with the next second image. With no
  cancellation every pair is counted once, and the container after the inner
  loop is the one obtained with the mismatching pair left out of the loop.
\<close>

theorem type_mismatch_skip:
  assumes v: "valid_schedule sched"
    and d: "Regions.Type_id (get rp I) \<noteq> Regions.Type_id (get rp J)"
  shows "let c = match_env h flt T rp pairs ratio bar sched;
             s' = impl_Match h flt T rp pairs ratio bar sched s
         in map_PutativesMatches s' (I, J) = map_PutativesMatches s (I, J) \<and>
            (\<forall>t. \<not> hasBeenCanceled bar (cancel_polls t) \<longrightarrow>
                 pair_task c I J t = increment 1 (poll t)) \<and>
            (\<forall>indexToCompare order j t.
                 \<not> hasBeenCanceled bar (cancel_polls t) \<and> indexToCompare ! j = J \<longrightarrow>
                 inner_loop c I indexToCompare (j # order) t
                   = inner_loop c I indexToCompare order (increment 1 (poll t))) \<and>
            (never_canceled bar \<longrightarrow>
               progress_count s' = card pairs \<and>
               (\<forall>indexToCompare order t.
                  map_PutativesMatches (inner_loop c I indexToCompare order t)
                    = map_PutativesMatches
                        (inner_loop c I indexToCompare
                           (filter (\<lambda>j. indexToCompare ! j \<noteq> J) order) t)))"
proof -
  let ?c = "match_env h flt T rp pairs ratio bar sched"
  let ?s' = "impl_Match h flt T rp pairs ratio bar sched s"
  have pr: "pair_result ?c I J = None"
    using d by (intro pair_result_type_mismatch) simp
  have 1: "map_PutativesMatches ?s' (I, J) = map_PutativesMatches s (I, J)"
    using impl_Match_entry [OF v, of h flt T rp pairs ratio bar s "(I, J)"] pr by auto
  have 2: "\<forall>t. \<not> hasBeenCanceled bar (cancel_polls t) \<longrightarrow>
                 pair_task ?c I J t = increment 1 (poll t)"
    using pr by (simp add: pair_task_no_result)
  have 3: "\<forall>indexToCompare order j t.
                 \<not> hasBeenCanceled bar (cancel_polls t) \<and> indexToCompare ! j = J \<longrightarrow>
                 inner_loop ?c I indexToCompare (j # order) t
                   = inner_loop ?c I indexToCompare order (increment 1 (poll t))"
    using 2 by (simp add: inner_loop_Cons)
  have 5: "never_canceled bar \<Longrightarrow> progress_count ?s' = card pairs"
  proof -
    assume "never_canceled bar"
    from completes_impl_Match [OF v this, of h flt T rp pairs ratio s]
    have "progress_count ?s' = progress_count (restart (card pairs) s) + card pairs"
      unfolding completes_def by blast
    then show "progress_count ?s' = card pairs" by simp
  qed
  have 4: "never_canceled bar \<longrightarrow>
               progress_count ?s' = card pairs \<and>
               (\<forall>indexToCompare order t.
                  map_PutativesMatches (inner_loop ?c I indexToCompare order t)
                    = map_PutativesMatches
                        (inner_loop ?c I indexToCompare
                           (filter (\<lambda>j. indexToCompare ! j \<noteq> J) order) t))"
    using pr 5 by (auto intro!: map_inner_loop_drop_failed)
  show ?thesis unfolding Let_def by (intro conjI 1 2 3 4)
qed


theorem type_mismatch_skip_witness:
  "valid_schedule sequential \<and>
   Regions.Type_id (get table_provider 0) \<noteq> Regions.Type_id (get table_provider 3) \<and>
   never_canceled None \<and>
   (let c = match_env table_hasher table_filters float table_provider table_pairs (4 / 5) None
              sequential;
        s' = impl_Match table_hasher table_filters float table_provider table_pairs (4 / 5) None
               sequential table_start
    in map_PutativesMatches s' (0, 3) = map_PutativesMatches table_start (0, 3) \<and>
       (\<forall>t. \<not> hasBeenCanceled None (cancel_polls t) \<longrightarrow>
            pair_task c 0 3 t = increment 1 (poll t)) \<and>
       (\<forall>indexToCompare order j t.
            \<not> hasBeenCanceled None (cancel_polls t) \<and> indexToCompare ! j = 3 \<longrightarrow>
            inner_loop c 0 indexToCompare (j # order) t
              = inner_loop c 0 indexToCompare order (increment 1 (poll t))) \<and>
       (never_canceled None \<longrightarrow>
          progress_count s' = card table_pairs \<and>
          (\<forall>indexToCompare order t.
             map_PutativesMatches (inner_loop c 0 indexToCompare order t)
               = map_PutativesMatches
                   (inner_loop c 0 indexToCompare
                      (filter (\<lambda>j. indexToCompare ! j \<noteq> 3) order) t))))"
proof -
  have d: "Regions.Type_id (get table_provider 0) \<noteq> Regions.Type_id (get table_provider 3)"
    by code_simp
  show ?thesis
    by (intro conjI valid_schedule_sequential d never_canceled_None
          type_mismatch_skip [OF valid_schedule_sequential d])
qed


section \<open>Independence of the schedule\<close>

text \<open>
  C7. The model is a function of its arguments, so two runs on the same
  arguments agree. Beyond that: with no cancellation, the container after the
  run is the same for any two execution orders of the iterations of the two
  parallel loops (each iteration taken as one step, its insert being inside
  the critical section).
\<close>

theorem content_deterministic:
  assumes v: "valid_schedule sched" and v': "valid_schedule sched'" and n: "never_canceled bar"
  shows "map_PutativesMatches (Match tn_uchar tn_float h flt ratio provider pairs bar sched s)
         = map_PutativesMatches (Match tn_uchar tn_float h flt ratio provider pairs bar sched' s) \<and>
         map_PutativesMatches (impl_Match h flt T rp pairs ratio bar sched s)
         = map_PutativesMatches (impl_Match h flt T rp pairs ratio bar sched' s)"
proof
  show "map_PutativesMatches (Match tn_uchar tn_float h flt ratio provider pairs bar sched s)
         = map_PutativesMatches (Match tn_uchar tn_float h flt ratio provider pairs bar sched' s)"
    by (simp add: Match_def map_impl_Match_schedule [OF v v' n] split: option.splits)
  show "map_PutativesMatches (impl_Match h flt T rp pairs ratio bar sched s)
         = map_PutativesMatches (impl_Match h flt T rp pairs ratio bar sched' s)"
    by (rule map_impl_Match_schedule [OF v v' n])
qed


theorem content_deterministic_witness:
  "valid_schedule sequential \<and> valid_schedule reversed \<and> never_canceled None \<and>
   insert_calls (impl_Match table_hasher table_filters float table_provider table_pairs (4 / 5)
                   None sequential table_start)
     \<noteq> insert_calls (impl_Match table_hasher table_filters float table_provider table_pairs
                       (4 / 5) None reversed table_start) \<and>
   map_PutativesMatches
     (Match ''h'' ''f'' table_hasher table_filters (4 / 5) (Some table_provider) table_pairs None
        sequential table_start)
   = map_PutativesMatches
       (Match ''h'' ''f'' table_hasher table_filters (4 / 5) (Some table_provider) table_pairs
          None reversed table_start) \<and>
   map_PutativesMatches
     (impl_Match table_hasher table_filters float table_provider table_pairs (4 / 5) None
        sequential table_start)
   = map_PutativesMatches
       (impl_Match table_hasher table_filters float table_provider table_pairs (4 / 5) None
          reversed table_start)"
proof -
  have d: "insert_calls (impl_Match table_hasher table_filters float table_provider table_pairs
                   (4 / 5) None sequential table_start)
     \<noteq> insert_calls (impl_Match table_hasher table_filters float table_provider table_pairs
                       (4 / 5) None reversed table_start)"
    by code_simp
  show ?thesis
    by (intro conjI valid_schedule_sequential valid_schedule_reversed never_canceled_None d
          conjunct1 [OF content_deterministic
            [OF valid_schedule_sequential valid_schedule_reversed never_canceled_None]]
          conjunct2 [OF content_deterministic
            [OF valid_schedule_sequential valid_schedule_reversed never_canceled_None]])
qed

section \<open>Cancellation\<close>

text \<open>
  C8. For a progress bar whose cancellation report, once true, stays true.
  If the report is already true when \<^verbatim>\<open>impl::Match\<close> starts, the run inserts
  nothing and counts nothing. If it is true at some cancellation check, then
  whatever remains of the current group and all later groups leave the
  container, the trace of inserts, the progress count and the error stream as
  they are. If it is false at a group's check and true once that group is done,
  the run's container is the container as that group left it. At every point
  the entries already in the container are kept as they are, every entry the
  loops add is the complete match list of its pair, and the run writes nothing
  to the error stream. The model is a total function: the run returns.
\<close>

theorem cancellation_halts:
  assumes l: "latched bar" and v: "valid_schedule sched"
  shows "let c = match_env h flt T rp pairs ratio bar sched in
     (hasBeenCanceled bar (cancel_polls s) \<longrightarrow>
        map_PutativesMatches (impl_Match h flt T rp pairs ratio bar sched s)
          = map_PutativesMatches s \<and>
        insert_calls (impl_Match h flt T rp pairs ratio bar sched s) = insert_calls s \<and>
        progress_count (impl_Match h flt T rp pairs ratio bar sched s) = 0) \<and>
     (hasBeenCanceled bar (cancel_polls t) \<longrightarrow>
        (let t' = outer_loop c sched groups (inner_loop c I indexToCompare order t)
         in map_PutativesMatches t' = map_PutativesMatches t \<and>
            insert_calls t' = insert_calls t \<and>
            progress_count t' = progress_count t \<and> cerr t' = cerr t)) \<and>
     (\<not> hasBeenCanceled bar (cancel_polls t) \<and>
      hasBeenCanceled bar (cancel_polls (group_task c sched I indexToCompare (poll t))) \<longrightarrow>
        map_PutativesMatches (outer_loop c sched ((I, indexToCompare) # groups) t)
          = map_PutativesMatches (group_task c sched I indexToCompare (poll t))) \<and>
     (\<forall>k ms. map_PutativesMatches t k = Some ms \<longrightarrow>
        map_PutativesMatches (outer_loop c sched groups t) k = Some ms) \<and>
     (\<forall>k. map_PutativesMatches (outer_loop c sched groups t) k \<noteq> map_PutativesMatches t k \<longrightarrow>
        map_PutativesMatches (outer_loop c sched groups t) k
          = Some (pair_matches c (fst k) (snd k))) \<and>
     cerr (impl_Match h flt T rp pairs ratio bar sched s) = cerr s"
proof -
  let ?c = "match_env h flt T rp pairs ratio bar sched"
  have lc: "latched (my_progress_bar ?c)" using l by simp
  have 1: "hasBeenCanceled bar (cancel_polls s) \<longrightarrow>
        map_PutativesMatches (impl_Match h flt T rp pairs ratio bar sched s)
          = map_PutativesMatches s \<and>
        insert_calls (impl_Match h flt T rp pairs ratio bar sched s) = insert_calls s \<and>
        progress_count (impl_Match h flt T rp pairs ratio bar sched s) = 0"
  proof
    assume "hasBeenCanceled bar (cancel_polls s)"
    then have "hasBeenCanceled (my_progress_bar ?c) (cancel_polls (restart (card pairs) s))"
      by simp
    from outer_loop_canceled [OF this, of sched "map_Pairs_of (sorted_list_of_set pairs)"]
    show "map_PutativesMatches (impl_Match h flt T rp pairs ratio bar sched s)
          = map_PutativesMatches s \<and>
        insert_calls (impl_Match h flt T rp pairs ratio bar sched s) = insert_calls s \<and>
        progress_count (impl_Match h flt T rp pairs ratio bar sched s) = 0"
      by (simp add: impl_Match_def poll_def)
  qed
  have 2: "hasBeenCanceled bar (cancel_polls t) \<longrightarrow>
        (let t' = outer_loop ?c sched groups (inner_loop ?c I indexToCompare order t)
         in map_PutativesMatches t' = map_PutativesMatches t \<and>
            insert_calls t' = insert_calls t \<and>
            progress_count t' = progress_count t \<and> cerr t' = cerr t)"
  proof
    assume "hasBeenCanceled bar (cancel_polls t)"
    then have "hasBeenCanceled (my_progress_bar ?c) (cancel_polls t)" by simp
    from loops_canceled [OF lc this, of sched groups I indexToCompare order]
    obtain n where "outer_loop ?c sched groups (inner_loop ?c I indexToCompare order t)
             = t\<lparr> cancel_polls := cancel_polls t + n \<rparr>" ..
    then show "let t' = outer_loop ?c sched groups (inner_loop ?c I indexToCompare order t)
         in map_PutativesMatches t' = map_PutativesMatches t \<and>
            insert_calls t' = insert_calls t \<and>
            progress_count t' = progress_count t \<and> cerr t' = cerr t"
      by (simp add: Let_def)
  qed
  have 3: "\<not> hasBeenCanceled bar (cancel_polls t) \<and>
      hasBeenCanceled bar (cancel_polls (group_task ?c sched I indexToCompare (poll t))) \<longrightarrow>
        map_PutativesMatches (outer_loop ?c sched ((I, indexToCompare) # groups) t)
          = map_PutativesMatches (group_task ?c sched I indexToCompare (poll t))"
  proof
    assume a: "\<not> hasBeenCanceled bar (cancel_polls t) \<and>
      hasBeenCanceled bar (cancel_polls (group_task ?c sched I indexToCompare (poll t)))"
    then have "hasBeenCanceled (my_progress_bar ?c)
                 (cancel_polls (group_task ?c sched I indexToCompare (poll t)))" by simp
    from outer_loop_canceled [OF this, of sched groups] a
    show "map_PutativesMatches (outer_loop ?c sched ((I, indexToCompare) # groups) t)
          = map_PutativesMatches (group_task ?c sched I indexToCompare (poll t))"
      by (simp add: poll_def)
  qed
  have 4: "\<forall>k ms. map_PutativesMatches t k = Some ms \<longrightarrow>
        map_PutativesMatches (outer_loop ?c sched groups t) k = Some ms"
    using outer_loop_preserves [OF v] by blast
  have 5: "\<forall>k. map_PutativesMatches (outer_loop ?c sched groups t) k \<noteq> map_PutativesMatches t k \<longrightarrow>
        map_PutativesMatches (outer_loop ?c sched groups t) k
          = Some (pair_matches ?c (fst k) (snd k))"
    using outer_loop_whole_entries [OF v] by blast
  have 6: "cerr (impl_Match h flt T rp pairs ratio bar sched s) = cerr s"
  proof -
    from evolves_impl_Match [OF v, of h flt T rp pairs ratio bar s]
    have "cerr (impl_Match h flt T rp pairs ratio bar sched s) = cerr (restart (card pairs) s)"
      unfolding evolves_def by blast
    then show ?thesis by simp
  qed
  show ?thesis unfolding Let_def using 1 2 3 4 5 6 unfolding Let_def by (intro conjI)
qed


theorem cancellation_halts_witness:
  "latched (cancel_from 5) \<and> latched (cancel_from 0) \<and> valid_schedule sequential \<and>
   \<not> hasBeenCanceled (cancel_from 5) (cancel_polls table_start) \<and>
   hasBeenCanceled (cancel_from 5)
     (cancel_polls
        (group_task
           (match_env table_hasher table_filters float table_provider table_pairs (4 / 5)
              (cancel_from 5) sequential)
           sequential 0 [1, 2, 3, 4] (poll table_start))) \<and>
   map_PutativesMatches
     (outer_loop
        (match_env table_hasher table_filters float table_provider table_pairs (4 / 5)
           (cancel_from 5) sequential)
        sequential [(0, [1, 2, 3, 4]), (1, [4]), (2, [1])] table_start)
   = map_PutativesMatches
       (group_task
          (match_env table_hasher table_filters float table_provider table_pairs (4 / 5)
             (cancel_from 5) sequential)
          sequential 0 [1, 2, 3, 4] (poll table_start)) \<and>
   map_PutativesMatches
     (impl_Match table_hasher table_filters float table_provider table_pairs (4 / 5)
        (cancel_from 5) sequential table_start) (0, 4) = Some [\<lparr> idx_i = 0, idx_j = 0 \<rparr>] \<and>
   map_PutativesMatches
     (impl_Match table_hasher table_filters float table_provider table_pairs (4 / 5)
        (cancel_from 5) sequential table_start) (1, 4) = None \<and>
   map_PutativesMatches
     (impl_Match table_hasher table_filters float table_provider table_pairs (4 / 5)
        None sequential table_start) (1, 4) = Some [\<lparr> idx_i = 0, idx_j = 0 \<rparr>] \<and>
   hasBeenCanceled (cancel_from 0) (cancel_polls table_start) \<and>
   map_PutativesMatches
     (impl_Match table_hasher table_filters float table_provider table_pairs (4 / 5)
        (cancel_from 0) sequential table_start)
   = map_PutativesMatches table_start \<and>
   map_PutativesMatches
     (outer_loop
        (match_env table_hasher table_filters float table_provider table_pairs (4 / 5)
           (cancel_from 0) sequential)
        sequential [(1, [4])]
        (inner_loop
           (match_env table_hasher table_filters float table_provider table_pairs (4 / 5)
              (cancel_from 0) sequential)
           0 [1, 2, 3, 4] [1, 2, 3] table_start))
   = map_PutativesMatches table_start"
proof -
  let ?c5 = "match_env table_hasher table_filters float table_provider table_pairs (4 / 5)
              (cancel_from 5) sequential"
  have n5: "\<not> hasBeenCanceled (cancel_from 5) (cancel_polls table_start)" by code_simp
  have h5: "hasBeenCanceled (cancel_from 5)
     (cancel_polls (group_task ?c5 sequential 0 [1, 2, 3, 4] (poll table_start)))"
    by code_simp
  have h0: "hasBeenCanceled (cancel_from 0) (cancel_polls table_start)" by code_simp
  have e04: "map_PutativesMatches
     (impl_Match table_hasher table_filters float table_provider table_pairs (4 / 5)
        (cancel_from 5) sequential table_start) (0, 4) = Some [\<lparr> idx_i = 0, idx_j = 0 \<rparr>]"
    by code_simp
  have e14: "map_PutativesMatches
     (impl_Match table_hasher table_filters float table_provider table_pairs (4 / 5)
        (cancel_from 5) sequential table_start) (1, 4) = None"
    by code_simp
  have f14: "map_PutativesMatches
     (impl_Match table_hasher table_filters float table_provider table_pairs (4 / 5)
        None sequential table_start) (1, 4) = Some [\<lparr> idx_i = 0, idx_j = 0 \<rparr>]"
    by code_simp
  note A = cancellation_halts [OF latched_cancel_from [of 5] valid_schedule_sequential,
      where h = table_hasher and flt = table_filters and T = float
        and rp = table_provider and pairs = table_pairs and ratio = "4 / 5"
        and s = table_start and t = table_start and I = 0 and indexToCompare = "[1, 2, 3, 4]"
        and groups = "[(1, [4]), (2, [1])]" and order = "[]", unfolded Let_def]
  note B = cancellation_halts [OF latched_cancel_from [of 0] valid_schedule_sequential,
      where h = table_hasher and flt = table_filters and T = float
        and rp = table_provider and pairs = table_pairs and ratio = "4 / 5"
        and s = table_start and t = table_start and I = 0 and indexToCompare = "[1, 2, 3, 4]"
        and groups = "[(1, [4])]" and order = "[1, 2, 3]", unfolded Let_def]
  from A n5 h5 have a: "map_PutativesMatches
     (outer_loop ?c5 sequential [(0, [1, 2, 3, 4]), (1, [4]), (2, [1])] table_start)
   = map_PutativesMatches (group_task ?c5 sequential 0 [1, 2, 3, 4] (poll table_start))"
    by blast
  from B h0 have b1: "map_PutativesMatches
     (impl_Match table_hasher table_filters float table_provider table_pairs (4 / 5)
        (cancel_from 0) sequential table_start)
   = map_PutativesMatches table_start" by blast
  from B h0 have b2: "map_PutativesMatches
     (outer_loop
        (match_env table_hasher table_filters float table_provider table_pairs (4 / 5)
           (cancel_from 0) sequential)
        sequential [(1, [4])]
        (inner_loop
           (match_env table_hasher table_filters float table_provider table_pairs (4 / 5)
              (cancel_from 0) sequential)
           0 [1, 2, 3, 4] [1, 2, 3] table_start))
   = map_PutativesMatches table_start" by blast
  show ?thesis
    by (intro conjI latched_cancel_from valid_schedule_sequential n5 h5 a e04 e14 f14 h0 b1 b2)
qed

section \<open>The zero-mean descriptor\<close>

text \<open>
  C9. The used images are traversed in ascending order without repetition.
  The zero-mean descriptor is the engine's \<^verbatim>\<open>GetZeroMeanDescriptor\<close> of the
  matrix whose rows, in that order, are \<^verbatim>\<open>GetZeroMeanDescriptor\<close> of the image's
  descriptor matrix for an image with descriptors and a row of zeros for an
  image without. Every hashed description of a used image is built from this
  vector, under any schedule of the index loop.
\<close>

theorem global_normalizer:
  assumes fin: "finite pairs" and v: "valid_schedule sched"
  shows "let used = sorted_list_of_set (fst ` pairs \<union> snd ` pairs);
             zero_mean = GetZeroMeanDescriptor h (MatrixXf (map (summary_row h T rp used) used));
             c = match_env h flt T rp pairs ratio bar sched
         in zero_mean_descriptor h T rp used = zero_mean \<and>
            sorted used \<and> distinct used \<and> set used = fst ` pairs \<union> snd ` pairs \<and>
            (\<forall>I \<in> fst ` pairs \<union> snd ` pairs.
               hashed_base c I
                 = CreateHashedDescriptions h (cascade_hasher c)
                     (mat_of T (get rp I) (DescriptorLength (get rp I))) zero_mean)"
proof -
  define used where "used = sorted_list_of_set (fst ` pairs \<union> snd ` pairs)"
  let ?c = "match_env h flt T rp pairs ratio bar sched"
  have u: "sorted_list_of_set (used_index_of (sorted_list_of_set pairs)) = used"
    unfolding used_def by (rule used_images_sorted [OF fin])
  have f: "finite (fst ` pairs \<union> snd ` pairs)" using fin by simp
  have zm: "zero_mean_descriptor h T rp used
            = GetZeroMeanDescriptor h (MatrixXf (map (summary_row h T rp used) used))"
    by (simp add: zero_mean_descriptor_def zero_mean_rows)
  have s: "sorted used \<and> distinct used \<and> set used = fst ` pairs \<union> snd ` pairs"
    unfolding used_def using f by simp
  have ch: "cascade_hasher ?c = init_cascade_hasher rp used"
    by (simp add: match_env_def Let_def u)
  have hb: "\<forall>I \<in> fst ` pairs \<union> snd ` pairs.
               hashed_base ?c I
                 = CreateHashedDescriptions h (cascade_hasher ?c)
                     (mat_of T (get rp I) (DescriptorLength (get rp I)))
                     (GetZeroMeanDescriptor h (MatrixXf (map (summary_row h T rp used) used)))"
  proof
    fix I assume "I \<in> fst ` pairs \<union> snd ` pairs"
    then have "I \<in> set used" using s by simp
    then show "hashed_base ?c I
                 = CreateHashedDescriptions h (cascade_hasher ?c)
                     (mat_of T (get rp I) (DescriptorLength (get rp I)))
                     (GetZeroMeanDescriptor h (MatrixXf (map (summary_row h T rp used) used)))"
      unfolding hashed_base_match_env [OF v] ch u Let_def zm by simp
  qed
  show ?thesis
    unfolding Let_def used_def [symmetric] using zm s hb by simp
qed

theorem global_normalizer_witness:
  "finite table_pairs \<and> valid_schedule reversed \<and>
   sorted_list_of_set (fst ` table_pairs \<union> snd ` table_pairs) = [0, 1, 2, 3, 4] \<and>
   map (summary_row table_hasher float table_provider [0, 1, 2, 3, 4]) [0, 1, 2, 3, 4]
     = [[3], [3], [0], [1], [1]] \<and>
   zero_mean_descriptor table_hasher float table_provider [0, 1, 2, 3, 4] = [3, 3, 0, 1, 1] \<and>
   hashed_base
     (match_env table_hasher table_filters float table_provider table_pairs (4 / 5) None reversed)
     4 = [3, 3, 0, 1, 1]"
proof -
  have f: "finite table_pairs" by (simp add: table_pairs_def)
  have u: "sorted_list_of_set (fst ` table_pairs \<union> snd ` table_pairs) = [0, 1, 2, 3, 4]"
    by code_simp
  have r: "map (summary_row table_hasher float table_provider [0, 1, 2, 3, 4]) [0, 1, 2, 3, 4]
     = [[3], [3], [0], [1], [1]]"
    by code_simp
  have g: "GetZeroMeanDescriptor table_hasher (MatrixXf [[3], [3], [0], [1], [1]]) = [3, 3, 0, 1, 1]"
    by code_simp
  have m: "4 \<in> fst ` table_pairs \<union> snd ` table_pairs"
    by (simp add: table_pairs_def)
  have c: "CreateHashedDescriptions table_hasher ch mat [3, 3, 0, 1, 1] = [3, 3, 0, 1, 1]"
    for ch mat
    by (simp add: table_hasher_def)
  note G = global_normalizer [OF f valid_schedule_reversed, of table_hasher float table_provider
             table_filters "4 / 5" None, unfolded Let_def u r g]
  from G have z: "zero_mean_descriptor table_hasher float table_provider [0, 1, 2, 3, 4]
                  = [3, 3, 0, 1, 1]" by blast
  from G m have "hashed_base
     (match_env table_hasher table_filters float table_provider table_pairs (4 / 5) None reversed)
     4 = CreateHashedDescriptions table_hasher
           (cascade_hasher (match_env table_hasher table_filters float table_provider table_pairs
              (4 / 5) None reversed))
           (mat_of float (get table_provider 4) (DescriptorLength (get table_provider 4)))
           [3, 3, 0, 1, 1]" by blast
  then have hb: "hashed_base
     (match_env table_hasher table_filters float table_provider table_pairs (4 / 5) None reversed)
     4 = [3, 3, 0, 1, 1]" unfolding c .
  show ?thesis by (intro conjI f valid_schedule_reversed u r z hb)
qed

section \<open>Orientation of the stored matches\<close>

text \<open>
  C2. Let a run store the list \<open>ms\<close> under the key \<open>(I, J)\<close>. The engine was
  queried with \<open>J\<close>'s hashed description and matrix as the query and \<open>I\<close>'s as
  the base. Every candidate accepted by the ratio test is turned into the
  record whose first component is the candidate's base index and whose second
  component is its query index, and every element of \<open>ms\<close> is such a record:
  its first component is an index into \<open>I\<close>'s descriptors, its second an
  index into \<open>J\<close>'s. The engine's answer is assumed to be within its contract
  and the de-duplication passes to only remove elements.
\<close>

theorem match_index_order:
  assumes v: "valid_schedule sched" and f: "filters_contract flt"
    and k: "knn_contract (RegionCount (get rp J)) (RegionCount (get rp I))
              (knn_query (match_env h flt T rp pairs ratio bar sched) I J)"
    and st: "map_PutativesMatches (impl_Match h flt T rp pairs ratio bar sched s) (I, J) = Some ms"
    and new: "map_PutativesMatches s (I, J) = None"
  shows "let c = match_env h flt T rp pairs ratio bar sched;
             pvec_indices = fst (knn_query c I J);
             pvec_distances = snd (knn_query c I J);
             accepted = nn_ratio_indexes ratio pvec_distances
         in knn_query c I J
              = Match_HashedDescriptions h (cascade_hasher c)
                  (hashed_base c J) (mat_of T (get rp J) (DescriptorLength (get rp I)))
                  (hashed_base c I) (mat_of T (get rp I) (DescriptorLength (get rp I))) \<and>
            ms = pair_matches c I J \<and>
            mset ms \<subseteq># mset (emplace_matches pvec_indices accepted) \<and>
            (\<forall>n < length accepted.
               emplace_matches pvec_indices accepted ! n
                 = \<lparr> idx_i = idx_j (pvec_indices ! (accepted ! n * 2)),
                     idx_j = idx_i (pvec_indices ! (accepted ! n * 2)) \<rparr>) \<and>
            (\<forall>m \<in> set ms. \<exists>g < length pvec_distances div 2.
               g \<in> set accepted \<and>
               idx_i m = idx_j (pvec_indices ! (g * 2)) \<and>
               idx_j m = idx_i (pvec_indices ! (g * 2)) \<and>
               idx_i m < RegionCount (get rp I) \<and> idx_j m < RegionCount (get rp J))"
proof -
  let ?c = "match_env h flt T rp pairs ratio bar sched"
  have 1: "knn_query ?c I J
              = Match_HashedDescriptions h (cascade_hasher ?c)
                  (hashed_base ?c J) (mat_of T (get rp J) (DescriptorLength (get rp I)))
                  (hashed_base ?c I) (mat_of T (get rp I) (DescriptorLength (get rp I)))"
    by (simp add: knn_query_def Let_def match_env_def)
  have 2: "ms = pair_matches ?c I J" by (rule impl_Match_new_entry [OF v st new])
  have fc: "filters_contract (filters ?c)" using f by simp
  have 3: "mset ms \<subseteq># mset (emplace_matches (fst (knn_query ?c I J))
                              (nn_ratio_indexes ratio (snd (knn_query ?c I J))))"
    using mset_pair_matches [OF fc, of I J] unfolding 2 by simp
  have 4: "\<forall>n < length (nn_ratio_indexes ratio (snd (knn_query ?c I J))).
               emplace_matches (fst (knn_query ?c I J))
                   (nn_ratio_indexes ratio (snd (knn_query ?c I J))) ! n
                 = \<lparr> idx_i = idx_j (fst (knn_query ?c I J)
                                     ! (nn_ratio_indexes ratio (snd (knn_query ?c I J)) ! n * 2)),
                     idx_j = idx_i (fst (knn_query ?c I J)
                                     ! (nn_ratio_indexes ratio (snd (knn_query ?c I J)) ! n * 2)) \<rparr>"
    by (simp add: emplace_matches_def)
  have 5: "\<forall>m \<in> set ms. \<exists>g < length (snd (knn_query ?c I J)) div 2.
               g \<in> set (nn_ratio_indexes ratio (snd (knn_query ?c I J))) \<and>
               idx_i m = idx_j (fst (knn_query ?c I J) ! (g * 2)) \<and>
               idx_j m = idx_i (fst (knn_query ?c I J) ! (g * 2)) \<and>
               idx_i m < RegionCount (get rp I) \<and> idx_j m < RegionCount (get rp J)"
  proof
    fix m assume "m \<in> set ms"
    then have "m \<in> set (pair_matches ?c I J)" unfolding 2 .
    from pair_matches_origin [OF fc k this]
    show "\<exists>g < length (snd (knn_query ?c I J)) div 2.
               g \<in> set (nn_ratio_indexes ratio (snd (knn_query ?c I J))) \<and>
               idx_i m = idx_j (fst (knn_query ?c I J) ! (g * 2)) \<and>
               idx_j m = idx_i (fst (knn_query ?c I J) ! (g * 2)) \<and>
               idx_i m < RegionCount (get rp I) \<and> idx_j m < RegionCount (get rp J)"
      by simp
  qed
  show ?thesis unfolding Let_def by (intro conjI 1 2 3 4 5)
qed

theorem match_index_order_witness:
  "valid_schedule sequential \<and> filters_contract table_filters \<and>
   knn_contract (RegionCount (get table_provider 1)) (RegionCount (get table_provider 0))
     (knn_query (match_env table_hasher table_filters float table_provider table_pairs (4 / 5)
                   None sequential) 0 1) \<and>
   map_PutativesMatches
     (impl_Match table_hasher table_filters float table_provider table_pairs (4 / 5) None
        sequential table_start) (0, 1)
     = Some [\<lparr> idx_i = 2, idx_j = 0 \<rparr>, \<lparr> idx_i = 1, idx_j = 2 \<rparr>] \<and>
   map_PutativesMatches table_start (0, 1) = None \<and>
   knn_query (match_env table_hasher table_filters float table_provider table_pairs (4 / 5)
                None sequential) 0 1
     = ([\<lparr> idx_i = 0, idx_j = 2 \<rparr>, \<lparr> idx_i = 0, idx_j = 1 \<rparr>,
         \<lparr> idx_i = 1, idx_j = 2 \<rparr>, \<lparr> idx_i = 1, idx_j = 0 \<rparr>,
         \<lparr> idx_i = 2, idx_j = 1 \<rparr>, \<lparr> idx_i = 2, idx_j = 0 \<rparr>],
        [1, 4, 16, 25, 2, 8]) \<and>
   (let c = match_env table_hasher table_filters float table_provider table_pairs (4 / 5) None
              sequential;
        pvec_indices = fst (knn_query c 0 1);
        pvec_distances = snd (knn_query c 0 1);
        accepted = nn_ratio_indexes (4 / 5) pvec_distances
    in knn_query c 0 1
         = Match_HashedDescriptions table_hasher (cascade_hasher c)
             (hashed_base c 1)
             (mat_of float (get table_provider 1) (DescriptorLength (get table_provider 0)))
             (hashed_base c 0)
             (mat_of float (get table_provider 0) (DescriptorLength (get table_provider 0))) \<and>
       [\<lparr> idx_i = 2, idx_j = 0 \<rparr>, \<lparr> idx_i = 1, idx_j = 2 \<rparr>] = pair_matches c 0 1 \<and>
       mset [\<lparr> idx_i = 2, idx_j = 0 \<rparr>, \<lparr> idx_i = 1, idx_j = 2 \<rparr>]
         \<subseteq># mset (emplace_matches pvec_indices accepted) \<and>
       (\<forall>n < length accepted.
          emplace_matches pvec_indices accepted ! n
            = \<lparr> idx_i = idx_j (pvec_indices ! (accepted ! n * 2)),
                idx_j = idx_i (pvec_indices ! (accepted ! n * 2)) \<rparr>) \<and>
       (\<forall>m \<in> set [\<lparr> idx_i = 2, idx_j = 0 \<rparr>, \<lparr> idx_i = 1, idx_j = 2 \<rparr>].
          \<exists>g < length pvec_distances div 2.
            g \<in> set accepted \<and>
            idx_i m = idx_j (pvec_indices ! (g * 2)) \<and>
            idx_j m = idx_i (pvec_indices ! (g * 2)) \<and>
            idx_i m < RegionCount (get table_provider 0) \<and>
            idx_j m < RegionCount (get table_provider 1)))"
proof -
  have k: "knn_contract (RegionCount (get table_provider 1)) (RegionCount (get table_provider 0))
     (knn_query (match_env table_hasher table_filters float table_provider table_pairs (4 / 5)
                   None sequential) 0 1)"
    by code_simp
  have st: "map_PutativesMatches
     (impl_Match table_hasher table_filters float table_provider table_pairs (4 / 5) None
        sequential table_start) (0, 1)
     = Some [\<lparr> idx_i = 2, idx_j = 0 \<rparr>, \<lparr> idx_i = 1, idx_j = 2 \<rparr>]"
    by code_simp
  have new: "map_PutativesMatches table_start (0, 1) = None" by code_simp
  have q: "knn_query (match_env table_hasher table_filters float table_provider table_pairs (4 / 5)
                None sequential) 0 1
     = ([\<lparr> idx_i = 0, idx_j = 2 \<rparr>, \<lparr> idx_i = 0, idx_j = 1 \<rparr>,
         \<lparr> idx_i = 1, idx_j = 2 \<rparr>, \<lparr> idx_i = 1, idx_j = 0 \<rparr>,
         \<lparr> idx_i = 2, idx_j = 1 \<rparr>, \<lparr> idx_i = 2, idx_j = 0 \<rparr>],
        [1, 4, 16, 25, 2, 8])"
    by code_simp
  show ?thesis
    by (intro conjI valid_schedule_sequential filters_contract_table k st new q
          match_index_order [OF valid_schedule_sequential filters_contract_table k st new])
qed

section \<open>One match per query descriptor\<close>

text \<open>
  C10. Let a run store the list \<open>ms\<close> under the key \<open>(I, J)\<close>, under the same
  assumptions as for C2. No two elements of \<open>ms\<close> have the same second
  component. Every element belongs to a group of the engine's answer, namely
  the group of the query descriptor that is its second component; that group
  passed the ratio test, and the element's first component is the base index
  at the group's first position, never the one at its second position
  unless the two coincide.
\<close>

theorem one_match_per_query:
  assumes v: "valid_schedule sched" and f: "filters_contract flt"
    and k: "knn_contract (RegionCount (get rp J)) (RegionCount (get rp I))
              (knn_query (match_env h flt T rp pairs ratio bar sched) I J)"
    and st: "map_PutativesMatches (impl_Match h flt T rp pairs ratio bar sched s) (I, J) = Some ms"
    and new: "map_PutativesMatches s (I, J) = None"
  shows "let c = match_env h flt T rp pairs ratio bar sched;
             pvec_indices = fst (knn_query c I J);
             pvec_distances = snd (knn_query c I J)
         in distinct (map idx_j ms) \<and>
            (\<forall>m \<in> set ms. \<exists>g < length pvec_distances div 2.
               idx_i (pvec_indices ! (g * 2)) = idx_j m) \<and>
            (\<forall>m \<in> set ms. \<forall>g < length pvec_distances div 2.
               idx_i (pvec_indices ! (g * 2)) = idx_j m \<longrightarrow>
               g \<in> set (nn_ratio_indexes ratio pvec_distances) \<and>
               idx_i m = idx_j (pvec_indices ! (g * 2)))"
proof -
  let ?c = "match_env h flt T rp pairs ratio bar sched"
  let ?inds = "fst (knn_query ?c I J)" and ?dists = "snd (knn_query ?c I J)"
  have ms: "ms = pair_matches ?c I J" by (rule impl_Match_new_entry [OF v st new])
  have fc: "filters_contract (filters ?c)" using f by simp
  have k': "knn_contract (RegionCount (get rp J)) (RegionCount (get rp I)) (?inds, ?dists)"
    using k by simp
  have len: "length ?inds = length ?dists" using k by (simp add: knn_contract_def)
  have inj: "inj_on (\<lambda>g. idx_i (?inds ! (g * 2))) {0..<length ?dists div 2}"
    using k len by (simp add: knn_contract_def distinct_map)
  have 1: "distinct (map idx_j ms)"
  proof -
    have a: "mset (pair_matches ?c I J)
             \<subseteq># mset (emplace_matches ?inds (nn_ratio_indexes ratio ?dists))"
      using mset_pair_matches [OF fc, of I J] by simp
    show ?thesis
      unfolding ms by (rule distinct_map_submset [OF a distinct_emplace_queries [OF k']])
  qed
  have origin: "\<exists>g < length ?dists div 2.
           g \<in> set (nn_ratio_indexes ratio ?dists) \<and>
           idx_i m = idx_j (?inds ! (g * 2)) \<and> idx_j m = idx_i (?inds ! (g * 2))"
    if "m \<in> set ms" for m
    using pair_matches_origin [OF fc k, of m] that unfolding ms by auto
  have 2: "\<forall>m \<in> set ms. \<exists>g < length ?dists div 2. idx_i (?inds ! (g * 2)) = idx_j m"
  proof
    fix m assume "m \<in> set ms"
    from origin [OF this] obtain g where "g < length ?dists div 2"
      "idx_j m = idx_i (?inds ! (g * 2))" by blast
    then show "\<exists>g < length ?dists div 2. idx_i (?inds ! (g * 2)) = idx_j m"
      by (intro exI [of _ g]) simp
  qed
  have 3: "\<forall>m \<in> set ms. \<forall>g < length ?dists div 2.
               idx_i (?inds ! (g * 2)) = idx_j m \<longrightarrow>
               g \<in> set (nn_ratio_indexes ratio ?dists) \<and>
               idx_i m = idx_j (?inds ! (g * 2))"
  proof (intro ballI allI impI)
    fix m g assume m: "m \<in> set ms" and g: "g < length ?dists div 2"
      and e: "idx_i (?inds ! (g * 2)) = idx_j m"
    from origin [OF m] obtain g' where g': "g' < length ?dists div 2"
        "g' \<in> set (nn_ratio_indexes ratio ?dists)"
        "idx_i m = idx_j (?inds ! (g' * 2))" "idx_j m = idx_i (?inds ! (g' * 2))" by blast
    have "idx_i (?inds ! (g * 2)) = idx_i (?inds ! (g' * 2))" using e g'(4) by simp
    then have "g = g'"
      using inj_onD [OF inj, of g g'] g g'(1) by simp
    with g' show "g \<in> set (nn_ratio_indexes ratio ?dists) \<and>
               idx_i m = idx_j (?inds ! (g * 2))" by simp
  qed
  show ?thesis unfolding Let_def by (intro conjI 1 2 3)
qed


theorem one_match_per_query_witness:
  "valid_schedule sequential \<and> filters_contract table_filters \<and>
   knn_contract (RegionCount (get table_provider 1)) (RegionCount (get table_provider 0))
     (knn_query (match_env table_hasher table_filters float table_provider table_pairs (4 / 5)
                   None sequential) 0 1) \<and>
   map_PutativesMatches
     (impl_Match table_hasher table_filters float table_provider table_pairs (4 / 5) None
        sequential table_start) (0, 1)
     = Some [\<lparr> idx_i = 2, idx_j = 0 \<rparr>, \<lparr> idx_i = 1, idx_j = 2 \<rparr>] \<and>
   map_PutativesMatches table_start (0, 1) = None \<and>
   knn_query (match_env table_hasher table_filters float table_provider table_pairs (4 / 5)
                None sequential) 0 1
     = ([\<lparr> idx_i = 0, idx_j = 2 \<rparr>, \<lparr> idx_i = 0, idx_j = 1 \<rparr>,
         \<lparr> idx_i = 1, idx_j = 2 \<rparr>, \<lparr> idx_i = 1, idx_j = 0 \<rparr>,
         \<lparr> idx_i = 2, idx_j = 1 \<rparr>, \<lparr> idx_i = 2, idx_j = 0 \<rparr>],
        [1, 4, 16, 25, 2, 8]) \<and>
   (let c = match_env table_hasher table_filters float table_provider table_pairs (4 / 5) None
              sequential;
        pvec_indices = fst (knn_query c 0 1);
        pvec_distances = snd (knn_query c 0 1)
    in distinct (map idx_j [\<lparr> idx_i = 2, idx_j = 0 \<rparr>, \<lparr> idx_i = 1, idx_j = 2 \<rparr>]) \<and>
       (\<forall>m \<in> set [\<lparr> idx_i = 2, idx_j = 0 \<rparr>, \<lparr> idx_i = 1, idx_j = 2 \<rparr>].
          \<exists>g < length pvec_distances div 2. idx_i (pvec_indices ! (g * 2)) = idx_j m) \<and>
       (\<forall>m \<in> set [\<lparr> idx_i = 2, idx_j = 0 \<rparr>, \<lparr> idx_i = 1, idx_j = 2 \<rparr>].
          \<forall>g < length pvec_distances div 2.
            idx_i (pvec_indices ! (g * 2)) = idx_j m \<longrightarrow>
            g \<in> set (nn_ratio_indexes (4 / 5) pvec_distances) \<and>
            idx_i m = idx_j (pvec_indices ! (g * 2))))"
proof -
  have k: "knn_contract (RegionCount (get table_provider 1)) (RegionCount (get table_provider 0))
     (knn_query (match_env table_hasher table_filters float table_provider table_pairs (4 / 5)
                   None sequential) 0 1)"
    by code_simp
  have st: "map_PutativesMatches
     (impl_Match table_hasher table_filters float table_provider table_pairs (4 / 5) None
        sequential table_start) (0, 1)
     = Some [\<lparr> idx_i = 2, idx_j = 0 \<rparr>, \<lparr> idx_i = 1, idx_j = 2 \<rparr>]"
    by code_simp
  have new: "map_PutativesMatches table_start (0, 1) = None" by code_simp
  have q: "knn_query (match_env table_hasher table_filters float table_provider table_pairs (4 / 5)
                None sequential) 0 1
     = ([\<lparr> idx_i = 0, idx_j = 2 \<rparr>, \<lparr> idx_i = 0, idx_j = 1 \<rparr>,
         \<lparr> idx_i = 1, idx_j = 2 \<rparr>, \<lparr> idx_i = 1, idx_j = 0 \<rparr>,
         \<lparr> idx_i = 2, idx_j = 1 \<rparr>, \<lparr> idx_i = 2, idx_j = 0 \<rparr>],
        [1, 4, 16, 25, 2, 8])"
    by code_simp
  show ?thesis
    by (intro conjI valid_schedule_sequential filters_contract_table k st new q
          one_match_per_query [OF valid_schedule_sequential filters_contract_table k st new])
qed

end
